theory Spec2Isabelle
  imports Main "HOL-Library.Sublist" "HOL-Library.Multiset"
begin

section \<open>The daily paper harvester (scripts/pull\_hf\_daily.py)\<close>

text \<open>
  The script retrieves the listing page of a day, visits the detail page of every
  article of the listing, assembles one record per new arXiv identifier, downloads the
  PDFs on a thread pool, drops the records whose download failed and writes the rest
  to a JSON file. The network, the clock and the thread pool are the world the script
  runs in: they are an explicit argument of the model, and everything the script does
  to the world is an event of the trace that a run returns.
\<close>

subsection \<open>Strings\<close>

text \<open>
  A Python \<^verbatim>\<open>str\<close> is a sequence of Unicode code points. \<open>ascii\<close> reads a literal
  of the source as such a sequence.
\<close>

type_synonym str = "nat list"

definition ascii :: "string \<Rightarrow> str" where
  "ascii s = map of_char s"

subsection \<open>Constants\<close>

definition HF_BASE_URL :: str where
  "HF_BASE_URL = ascii ''https://huggingface.co''"

definition HF_PAPERS_URL :: str where
  "HF_PAPERS_URL = ascii ''https://huggingface.co/papers/date''"

subsection \<open>Data\<close>

text \<open>The exceptions that leave \<^verbatim>\<open>pull_hf_daily\<close>, which has no handler of its own.\<close>

datatype exn = AttributeError | TypeError | RequestException

text \<open>
  A detail page after \<^verbatim>\<open>BeautifulSoup(content.text, "html.parser")\<close>: what the two
  \<^verbatim>\<open>soup.find\<close> calls of the loop give, the text of the element, or \<open>None\<close> when
  the page has no such element.
\<close>

record page =
  h1_text :: "str option"
  p_text :: "str option"

text \<open>
  An \<^verbatim>\<open>article\<close> element of the listing. \<open>a_href\<close> is \<^verbatim>\<open>paper.a\<close> and its
  \<^verbatim>\<open>href\<close>: \<open>None\<close> when the article has no anchor, \<open>Some None\<close> when its first
  anchor has no \<^verbatim>\<open>href\<close> attribute. \<open>detail_reply\<close> is what \<^verbatim>\<open>requests.get\<close>
  gives when the loop asks for the detail page of this article: an exception, or a
  status code and the page.
\<close>

record article =
  a_href :: "str option option"
  detail_reply :: "exn + nat \<times> page"

text \<open>The dictionary appended to \<^verbatim>\<open>papers\<close>.\<close>

record paper =
  title :: str
  arxiv_id :: str
  arxiv_link :: str
  hf_link :: str
  pdf_path :: str
  abstract :: str

text \<open>
  What one call of \<^verbatim>\<open>download_pdf\<close> meets: the request raises or answers with a
  status code, and writing the file succeeds or raises \<^verbatim>\<open>IOError\<close>.
\<close>

record attempt =
  get_reply :: "exn + nat"
  write_ok :: bool

text \<open>What a run does to the world, in order.\<close>

datatype event =
    GetListing str
  | MakeDirs str
  | GetDetail str
  | Download str str
  | WriteJson str "paper list"
  | Uncaught exn

text \<open>
  The world of a run. \<open>strftime_ymd\<close> is \<^verbatim>\<open>strftime("%Y-%m-%d")\<close> on a day number;
  \<open>now_first\<close> and \<open>now_last\<close> are the days \<^verbatim>\<open>datetime.now()\<close> reads in
  \<^verbatim>\<open>get_previous_weekday\<close> and before the output file is named;
  \<open>requests_get_listing\<close> answers the request for the listing URL;
  \<open>download_attempt i\<close> is what the \<open>i\<close>-th submitted download meets;
  \<open>as_completed\<close> is the order in which the pool hands the finished futures back;
  \<open>unicode_decimal\<close> is the table of the decimal digits (category Nd) of the Unicode
  database of the running interpreter, which the source does not hold.
\<close>

record world =
  strftime_ymd :: "int \<Rightarrow> str"
  now_first :: int
  now_last :: int
  requests_get_listing :: "str \<Rightarrow> exn + nat \<times> article list"
  download_attempt :: "nat \<Rightarrow> attempt"
  as_completed :: "(str \<times> bool) list \<Rightarrow> (str \<times> bool) list"
  unicode_decimal :: "nat \<Rightarrow> bool"

text \<open>The variables of the harvesting loop, and the trace so far.\<close>

record harvest_state =
  papers :: "paper list"
  seen_ids :: "str set"
  trace :: "event list"

datatype outcome = Raised exn "event list" | Next harvest_state

subsection \<open>The identifier of a link\<close>

text \<open>
  \<^verbatim>\<open>re.search(r"/papers/(\d+\.\d+)", link)\<close> and \<^verbatim>\<open>group(1)\<close>. The search tries
  every start position from the left and stops at the first where the pattern matches.
  At one position the match is forced: the literal, then the whole run of digits (a
  shorter run would leave a digit where the dot has to be), the dot, and the whole run
  of digits after it, since \<^verbatim>\<open>+\<close> is greedy and nothing follows it.

  The pattern is a \<^verbatim>\<open>str\<close> pattern, so \<^verbatim>\<open>\d\<close> is any Unicode decimal digit. Below
  code point 128 these are \<^verbatim>\<open>0\<close> to \<^verbatim>\<open>9\<close>; from 128 on the table \<open>dec\<close> of the
  interpreter decides.
\<close>

definition is_digit :: "(nat \<Rightarrow> bool) \<Rightarrow> nat \<Rightarrow> bool" where
  "is_digit dec c = (if c < 128 then 48 \<le> c \<and> c \<le> 57 else dec c)"

fun strip_literal :: "str \<Rightarrow> str \<Rightarrow> str option" where
  "strip_literal [] s = Some s"
| "strip_literal (c # cs) [] = None"
| "strip_literal (c # cs) (x # xs) = (if c = x then strip_literal cs xs else None)"

definition match_here :: "(nat \<Rightarrow> bool) \<Rightarrow> str \<Rightarrow> str option" where
  "match_here dec s =
     (case strip_literal (ascii ''/papers/'') s of
        None \<Rightarrow> None
      | Some t \<Rightarrow>
          (let d1 = takeWhile (is_digit dec) t in
           if d1 = [] then None
           else (case dropWhile (is_digit dec) t of
                   [] \<Rightarrow> None
                 | c # u \<Rightarrow>
                     (let d2 = takeWhile (is_digit dec) u in
                      if c = 46 \<and> d2 \<noteq> [] then Some (d1 @ [c] @ d2)
                      else None))))"

fun arxiv_id_match :: "(nat \<Rightarrow> bool) \<Rightarrow> str \<Rightarrow> str option" where
  "arxiv_id_match dec [] = None"
| "arxiv_id_match dec (c # cs) =
     (case match_here dec (c # cs) of
        Some m \<Rightarrow> Some m
      | None \<Rightarrow> arxiv_id_match dec cs)"

subsection \<open>The harvesting loop\<close>

text \<open>\<^verbatim>\<open>.replace("\n ", "")\<close>: every occurrence, from the left, without overlap.\<close>

fun replace_newline_space :: "str \<Rightarrow> str" where
  "replace_newline_space (a # b # cs) =
     (if a = 10 \<and> b = 32 then replace_newline_space cs
      else a # replace_newline_space (b # cs))"
| "replace_newline_space cs = cs"

definition new_paper :: "str \<Rightarrow> str \<Rightarrow> str \<Rightarrow> str \<Rightarrow> paper" where
  "new_paper link t abstr ident =
     \<lparr>title = replace_newline_space t,
      arxiv_id = ident,
      arxiv_link = ascii ''https://arxiv.org/pdf/'' @ ident,
      hf_link = HF_BASE_URL @ link,
      pdf_path = ascii ''temp_pdfs/'' @ ident @ ascii ''.pdf'',
      abstract = abstr\<rparr>"

text \<open>
  One turn of \<^verbatim>\<open>for paper in today_papers_list\<close>, in the order of the source: the
  link, the request for the detail page, the status check, the title and the abstract,
  the identifier, the duplicate check, the append.
\<close>

definition loop_body :: "(nat \<Rightarrow> bool) \<Rightarrow> harvest_state \<Rightarrow> article \<Rightarrow> outcome" where
  "loop_body dec s p =
     (case a_href p of
        None \<Rightarrow> Raised AttributeError (trace s)
      | Some None \<Rightarrow> Raised TypeError (trace s)
      | Some (Some link) \<Rightarrow>
          (let hf_paper_url = HF_BASE_URL @ link;
               tr = trace s @ [GetDetail hf_paper_url]
           in case detail_reply p of
                Inl e \<Rightarrow> Raised e tr
              | Inr (status_code, soup) \<Rightarrow>
                  if status_code \<noteq> 200 then Next (s\<lparr>trace := tr\<rparr>)
                  else (case h1_text soup of
                          None \<Rightarrow> Raised AttributeError tr
                        | Some t \<Rightarrow>
                            (case p_text soup of
                               None \<Rightarrow> Raised AttributeError tr
                             | Some abstr \<Rightarrow>
                                 (case arxiv_id_match dec link of
                                    None \<Rightarrow> Next (s\<lparr>trace := tr\<rparr>)
                                  | Some ident \<Rightarrow>
                                      if ident \<in> seen_ids s then Next (s\<lparr>trace := tr\<rparr>)
                                      else Next \<lparr>papers = papers s @ [new_paper link t abstr ident],
                                                 seen_ids = insert ident (seen_ids s),
                                                 trace = tr\<rparr>)))))"

fun harvest :: "(nat \<Rightarrow> bool) \<Rightarrow> harvest_state \<Rightarrow> article list \<Rightarrow> outcome" where
  "harvest dec s [] = Next s"
| "harvest dec s (p # ps) =
     (case loop_body dec s p of
        Raised e tr \<Rightarrow> Raised e tr
      | Next s' \<Rightarrow> harvest dec s' ps)"

subsection \<open>The download stage\<close>

text \<open>
  \<^verbatim>\<open>download_pdf\<close> catches every exception: the result is the link and whether the
  \<^verbatim>\<open>try\<close> block reached its \<^verbatim>\<open>return\<close>. \<^verbatim>\<open>raise_for_status\<close> raises on the
  status codes 400 to 599.
\<close>

definition download_pdf :: "attempt \<Rightarrow> str \<Rightarrow> str \<Rightarrow> str \<times> bool" where
  "download_pdf w link save_path =
     (case get_reply w of
        Inl e \<Rightarrow> (link, False)
      | Inr status_code \<Rightarrow>
          if 400 \<le> status_code \<and> status_code < 600 then (link, False)
          else if write_ok w then (link, True)
          else (link, False))"

text \<open>\<^verbatim>\<open>for future in as_completed(futures)\<close>: a failed link filters the list.\<close>

fun collect_results :: "(str \<times> bool) list \<Rightarrow> paper list \<Rightarrow> paper list" where
  "collect_results [] ps = ps"
| "collect_results ((link, success) # rs) ps =
     collect_results rs (if success then ps else filter (\<lambda>paper. arxiv_link paper \<noteq> link) ps)"

definition submit_all :: "world \<Rightarrow> paper list \<Rightarrow> (str \<times> bool) list" where
  "submit_all w ps =
     map (\<lambda>(i, paper). download_pdf (download_attempt w i) (arxiv_link paper) (pdf_path paper))
       (enumerate 0 ps)"

definition download_stage :: "world \<Rightarrow> paper list \<Rightarrow> paper list" where
  "download_stage w ps = collect_results (as_completed w (submit_all w ps)) ps"

subsection \<open>The run\<close>

definition get_previous_weekday :: "world \<Rightarrow> str" where
  "get_previous_weekday w = strftime_ymd w (now_first w - 1)"

definition listing_url :: "world \<Rightarrow> str option \<Rightarrow> str" where
  "listing_url w date_arg =
     HF_PAPERS_URL @ ascii ''/'' @ (case date_arg of None \<Rightarrow> get_previous_weekday w | Some d \<Rightarrow> d)"

definition data_file_path :: "world \<Rightarrow> str" where
  "data_file_path w = ascii ''data/'' @ strftime_ymd w (now_last w) @ ascii ''_papers.json''"

definition start_state :: "str \<Rightarrow> harvest_state" where
  "start_state url = \<lparr>papers = [], seen_ids = {}, trace = [GetListing url, MakeDirs (ascii ''temp_pdfs'')]\<rparr>"

text \<open>
  \<^verbatim>\<open>pull_hf_daily(date)\<close>: the trace of the run. A trace that ends in \<open>Uncaught\<close> is
  a run that an exception ended; the trace \<open>[GetListing url]\<close> is the early
  \<^verbatim>\<open>return\<close> on a listing status other than 200.
\<close>

definition pull_hf_daily :: "world \<Rightarrow> str option \<Rightarrow> event list" where
  "pull_hf_daily w date_arg =
     (let hf_papers_url = listing_url w date_arg
      in case requests_get_listing w hf_papers_url of
           Inl e \<Rightarrow> [GetListing hf_papers_url, Uncaught e]
         | Inr (status_code, today_papers_list) \<Rightarrow>
             if status_code \<noteq> 200 then [GetListing hf_papers_url]
             else (case harvest (unicode_decimal w) (start_state hf_papers_url) today_papers_list of
                     Raised e tr \<Rightarrow> tr @ [Uncaught e]
                   | Next s \<Rightarrow>
                       trace s
                       @ map (\<lambda>paper. Download (arxiv_link paper) (pdf_path paper)) (papers s)
                       @ [MakeDirs (ascii ''data''),
                          WriteJson (data_file_path w) (download_stage w (papers s))]))"

subsection \<open>Notions of the specification\<close>

text \<open>
  A string of the shape digits, dot, digits, and its occurrence in a link at offset
  \<open>n\<close> right after the path prefix \<^verbatim>\<open>/papers/\<close>. Both are written so that they
  compute; \<open>digits_dot_digits_iff\<close> and \<open>occurs_at_iff\<close> below give their meaning.
\<close>

definition digits_dot_digits :: "(nat \<Rightarrow> bool) \<Rightarrow> str \<Rightarrow> bool" where
  "digits_dot_digits dec m =
     (case dropWhile (is_digit dec) m of
        [] \<Rightarrow> False
      | c # d2 \<Rightarrow>
          c = 46 \<and> takeWhile (is_digit dec) m \<noteq> [] \<and> d2 \<noteq> [] \<and> list_all (is_digit dec) d2)"

definition occurs_at :: "(nat \<Rightarrow> bool) \<Rightarrow> str \<Rightarrow> nat \<Rightarrow> str \<Rightarrow> bool" where
  "occurs_at dec link n m =
     (digits_dot_digits dec m \<and> n \<le> length link \<and> prefix (ascii ''/papers/'' @ m) (drop n link))"

text \<open>
  The record the loop builds from an article when the article passes every check but
  the duplicate check, the identifier an article yields, the detail requests of a list
  of articles, and the loop invariant that ties \<^verbatim>\<open>seen_ids\<close> to \<^verbatim>\<open>papers\<close>.
\<close>

definition entry_record :: "(nat \<Rightarrow> bool) \<Rightarrow> article \<Rightarrow> paper option" where
  "entry_record dec p =
     (case a_href p of
        Some (Some link) \<Rightarrow>
          (case detail_reply p of
             Inr (status_code, soup) \<Rightarrow>
               (case (h1_text soup, p_text soup, arxiv_id_match dec link) of
                  (Some t, Some abstr, Some ident) \<Rightarrow>
                    if status_code = 200 then Some (new_paper link t abstr ident) else None
                | _ \<Rightarrow> None)
           | Inl e \<Rightarrow> None)
      | _ \<Rightarrow> None)"

definition yields :: "(nat \<Rightarrow> bool) \<Rightarrow> article \<Rightarrow> str \<Rightarrow> bool" where
  "yields dec p ident = (map_option arxiv_id (entry_record dec p) = Some ident)"

definition fetch_events :: "article list \<Rightarrow> event list" where
  "fetch_events ps =
     List.map_filter
       (\<lambda>p. case a_href p of Some (Some link) \<Rightarrow> Some (GetDetail (HF_BASE_URL @ link)) | _ \<Rightarrow> None) ps"

definition seen_matches_papers :: "harvest_state \<Rightarrow> bool" where
  "seen_matches_papers s = (seen_ids s = arxiv_id ` set (papers s) \<and> distinct (map arxiv_id (papers s)))"

text \<open>The trace of one turn of the loop, however the turn ends.\<close>

fun outcome_trace :: "outcome \<Rightarrow> event list" where
  "outcome_trace (Raised e tr) = tr"
| "outcome_trace (Next s) = trace s"

text \<open>Whether the \<open>i\<close>-th submitted download, the one of \<open>paper\<close>, reports success.\<close>

definition task_ok :: "world \<Rightarrow> nat \<Rightarrow> paper \<Rightarrow> bool" where
  "task_ok w i paper = snd (download_pdf (download_attempt w i) (arxiv_link paper) (pdf_path paper))"

subsection \<open>Sample inputs\<close>

text \<open>
  A detail page with both elements, an article that links to such a page, and a world
  whose listing request answers with the given status and articles, whose downloads
  fail with status 404 for the task numbers in \<open>failing\<close>, whose pool hands results
  back in reverse order, whose clock reads 2024-01-02, and whose decimal digits beyond
  ASCII are the Arabic-Indic digits U+0660 to U+0669.
\<close>

definition sample_page :: "str \<Rightarrow> page" where
  "sample_page t = \<lparr>h1_text = Some t, p_text = Some (ascii ''Abstract'')\<rparr>"

definition sample_article :: "str \<Rightarrow> str \<Rightarrow> article" where
  "sample_article link t = \<lparr>a_href = Some (Some link), detail_reply = Inr (200, sample_page t)\<rparr>"

definition sample_decimal :: "nat \<Rightarrow> bool" where
  "sample_decimal c = (1632 \<le> c \<and> c \<le> 1641)"

definition sample_world :: "nat \<Rightarrow> article list \<Rightarrow> nat set \<Rightarrow> world" where
  "sample_world status_code articles failing =
     \<lparr>strftime_ymd = (\<lambda>day. if day = 738886 then (ascii ''2024-01-01'') else (ascii ''2024-01-02'')),
      now_first = 738887,
      now_last = 738887,
      requests_get_listing = (\<lambda>url. Inr (status_code, articles)),
      download_attempt = (\<lambda>i. \<lparr>get_reply = Inr (if i \<in> failing then 404 else 200), write_ok = True\<rparr>),
      as_completed = rev,
      unicode_decimal = sample_decimal\<rparr>"

section \<open>The identifier of a link: the search finds the leftmost, longest occurrence\<close>

lemma dot_not_digit: "\<not> is_digit dec 46"
  by (simp add: is_digit_def)

lemma is_digit_ascii: "c < 128 \<Longrightarrow> is_digit dec c \<longleftrightarrow> c \<in> set (ascii ''0123456789'')"
proof -
  have "set (ascii ''0123456789'') = {48, 49, 50, 51, 52, 53, 54, 55, 56, 57}"
    by (simp add: ascii_def)
  moreover have "48 \<le> c \<and> c \<le> 57 \<longleftrightarrow> c \<in> {48, 49, 50, 51, 52, 53, 54, 55, 56, 57}"
    by (simp only: insert_iff empty_iff) arith
  ultimately show "c < 128 \<Longrightarrow> is_digit dec c \<longleftrightarrow> c \<in> set (ascii ''0123456789'')"
    by (simp only: is_digit_def if_True)
qed

lemma digits_dot_digits_iff:
  "digits_dot_digits dec m \<longleftrightarrow>
     (\<exists>d1 d2. m = d1 @ [46] @ d2 \<and> d1 \<noteq> [] \<and> d2 \<noteq> [] \<and> list_all (is_digit dec) d1 \<and> list_all (is_digit dec) d2)"
proof
  assume "digits_dot_digits dec m"
  then obtain d2 where d: "dropWhile (is_digit dec) m = 46 # d2" "takeWhile (is_digit dec) m \<noteq> []"
      "d2 \<noteq> []" "list_all (is_digit dec) d2"
    by (auto simp: digits_dot_digits_def split: list.splits)
  have "m = takeWhile (is_digit dec) m @ [46] @ d2"
    using takeWhile_dropWhile_id [of "is_digit dec" m] d(1) by simp
  moreover have "list_all (is_digit dec) (takeWhile (is_digit dec) m)"
    by (simp add: list_all_iff) (meson set_takeWhileD)
  ultimately show "\<exists>d1 d2. m = d1 @ [46] @ d2 \<and> d1 \<noteq> [] \<and> d2 \<noteq> [] \<and> list_all (is_digit dec) d1 \<and> list_all (is_digit dec) d2"
    using d by blast
next
  assume "\<exists>d1 d2. m = d1 @ [46] @ d2 \<and> d1 \<noteq> [] \<and> d2 \<noteq> [] \<and> list_all (is_digit dec) d1 \<and> list_all (is_digit dec) d2"
  then obtain d1 d2 where m: "m = d1 @ 46 # d2" and d: "d1 \<noteq> []" "d2 \<noteq> []"
      "list_all (is_digit dec) d1" "list_all (is_digit dec) d2"
    by auto
  have "takeWhile (is_digit dec) m = d1" "dropWhile (is_digit dec) m = 46 # d2"
    using d(3) by (simp_all add: m list_all_iff takeWhile_append2 dropWhile_append2 dot_not_digit)
  then show "digits_dot_digits dec m"
    using d by (simp add: digits_dot_digits_def)
qed

lemma strip_literal_Some: "strip_literal lit s = Some t \<longleftrightarrow> s = lit @ t"
  by (induction lit s rule: strip_literal.induct) auto

lemma strip_literal_None: "strip_literal lit s = None \<longleftrightarrow> \<not> prefix lit s"
  by (induction lit s rule: strip_literal.induct) auto

lemma occurs_at_iff:
  "occurs_at dec link n m \<longleftrightarrow>
     digits_dot_digits dec m \<and> (\<exists>pre rest. link = pre @ ascii ''/papers/'' @ m @ rest \<and> length pre = n)"
proof -
  have "(n \<le> length link \<and> prefix (ascii ''/papers/'' @ m) (drop n link)) \<longleftrightarrow>
        (\<exists>pre rest. link = pre @ ascii ''/papers/'' @ m @ rest \<and> length pre = n)" (is "?l \<longleftrightarrow> ?r")
  proof
    assume ?l
    then obtain rest where "drop n link = (ascii ''/papers/'' @ m) @ rest" and n: "n \<le> length link"
      by (auto simp: prefix_def)
    then have "link = take n link @ ascii ''/papers/'' @ m @ rest"
      by (metis append_take_drop_id append.assoc)
    moreover have "length (take n link) = n" using n by simp
    ultimately show ?r by blast
  next
    assume ?r
    then show ?l by (auto simp: prefix_def)
  qed
  then show ?thesis by (simp add: occurs_at_def)
qed

lemma match_here_Some:
  assumes "match_here dec s = Some m"
  shows "digits_dot_digits dec m \<and> (\<exists>rest. s = ascii ''/papers/'' @ m @ rest \<and> (rest = [] \<or> \<not> is_digit dec (hd rest)))"
proof -
  from assms obtain t where t: "strip_literal (ascii ''/papers/'') s = Some t"
    by (auto simp: match_here_def split: option.splits)
  then have s: "s = ascii ''/papers/'' @ t" by (simp only: strip_literal_Some)
  from assms t obtain u where u: "dropWhile (is_digit dec) t = 46 # u"
      and d1: "takeWhile (is_digit dec) t \<noteq> []" and d2: "takeWhile (is_digit dec) u \<noteq> []"
      and m: "m = takeWhile (is_digit dec) t @ [46] @ takeWhile (is_digit dec) u"
    by (auto simp: match_here_def Let_def split: list.splits if_splits)
  have all1: "list_all (is_digit dec) (takeWhile (is_digit dec) t)" and all2: "list_all (is_digit dec) (takeWhile (is_digit dec) u)"
    by (simp_all add: list_all_iff) (meson set_takeWhileD)+
  have "digits_dot_digits dec m"
    unfolding digits_dot_digits_iff using m d1 d2 all1 all2 by blast
  moreover have "t = takeWhile (is_digit dec) t @ 46 # takeWhile (is_digit dec) u @ dropWhile (is_digit dec) u"
    using takeWhile_dropWhile_id [of "is_digit dec" t] u by simp
  then have "s = ascii ''/papers/'' @ m @ dropWhile (is_digit dec) u"
    using s m by simp
  moreover have "dropWhile (is_digit dec) u = [] \<or> \<not> is_digit dec (hd (dropWhile (is_digit dec) u))"
    using hd_dropWhile [of "is_digit dec" u] by blast
  ultimately show ?thesis by blast
qed

lemma match_here_complete:
  assumes "digits_dot_digits dec m'" and "prefix (ascii ''/papers/'' @ m') s"
  shows "\<exists>m. match_here dec s = Some m \<and> prefix m' m"
proof -
  from assms(1) obtain d1 d2 where m': "m' = d1 @ 46 # d2" and d: "d1 \<noteq> []" "d2 \<noteq> []"
      "list_all (is_digit dec) d1" "list_all (is_digit dec) d2"
    unfolding digits_dot_digits_iff by auto
  from assms(2) obtain rest where s: "s = ascii ''/papers/'' @ (d1 @ 46 # d2 @ rest)"
    by (auto simp: prefix_def m')
  have t1: "takeWhile (is_digit dec) (d1 @ 46 # d2 @ rest) = d1"
    and t2: "dropWhile (is_digit dec) (d1 @ 46 # d2 @ rest) = 46 # d2 @ rest"
    using d(3) by (simp_all add: list_all_iff takeWhile_append2 dropWhile_append2 dot_not_digit)
  have t3: "takeWhile (is_digit dec) (d2 @ rest) = d2 @ takeWhile (is_digit dec) rest"
    using d(4) by (simp add: list_all_iff takeWhile_append2)
  have sl: "strip_literal (ascii ''/papers/'') s = Some (d1 @ 46 # d2 @ rest)"
    by (simp only: strip_literal_Some s)
  have "match_here dec s = Some (d1 @ 46 # d2 @ takeWhile (is_digit dec) rest)"
    unfolding match_here_def sl using d(1,2) by (simp add: t1 t2 t3)
  then show ?thesis by (simp add: m')
qed

lemma match_here_None_iff: "match_here dec s = None \<longleftrightarrow> \<not> (\<exists>m. occurs_at dec s 0 m)"
proof
  assume n: "match_here dec s = None"
  show "\<not> (\<exists>m. occurs_at dec s 0 m)"
  proof
    assume "\<exists>m. occurs_at dec s 0 m"
    then obtain m where "digits_dot_digits dec m" "prefix (ascii ''/papers/'' @ m) s"
      by (auto simp: occurs_at_def)
    from match_here_complete [OF this] n show False by simp
  qed
next
  assume a: "\<not> (\<exists>m. occurs_at dec s 0 m)"
  show "match_here dec s = None"
  proof (cases "match_here dec s")
    case (Some m)
    from match_here_Some [OF this] have "occurs_at dec s 0 m"
      by (auto simp: occurs_at_def)
    with a show ?thesis by blast
  qed simp
qed

lemma occurs_at_Cons: "occurs_at dec (c # cs) (Suc n) m \<longleftrightarrow> occurs_at dec cs n m"
  by (simp add: occurs_at_def)

lemma occurs_at_Nil: "\<not> occurs_at dec [] n m"
  by (auto simp: occurs_at_def ascii_def)

lemma arxiv_id_match_None_iff: "arxiv_id_match dec link = None \<longleftrightarrow> \<not> (\<exists>n m. occurs_at dec link n m)"
proof (induction link)
  case Nil
  then show ?case by (simp add: occurs_at_Nil)
next
  case (Cons c cs)
  show ?case
  proof (cases "match_here dec (c # cs)")
    case None
    then have no0: "\<And>m. \<not> occurs_at dec (c # cs) 0 m"
      by (simp add: match_here_None_iff)
    have "(\<exists>n m. occurs_at dec (c # cs) n m) \<longleftrightarrow> (\<exists>n m. occurs_at dec cs n m)"
    proof
      assume "\<exists>n m. occurs_at dec (c # cs) n m"
      then obtain n m where o: "occurs_at dec (c # cs) n m" by blast
      with no0 obtain k where "n = Suc k" by (cases n) auto
      with o show "\<exists>n m. occurs_at dec cs n m" by (auto simp: occurs_at_Cons)
    next
      assume "\<exists>n m. occurs_at dec cs n m"
      then show "\<exists>n m. occurs_at dec (c # cs) n m"
        using occurs_at_Cons by blast
    qed
    with None Cons show ?thesis by simp
  next
    case (Some m)
    from match_here_Some [OF this] have "occurs_at dec (c # cs) 0 m"
      by (auto simp: occurs_at_def)
    with Some show ?thesis by auto
  qed
qed

lemma arxiv_id_match_Some:
  "arxiv_id_match dec link = Some m \<Longrightarrow>
     \<exists>n. occurs_at dec link n m \<and>
         (\<forall>n' m'. occurs_at dec link n' m' \<longrightarrow> n \<le> n' \<and> (n' = n \<longrightarrow> prefix m' m))"
proof (induction link)
  case Nil
  then show ?case by simp
next
  case (Cons c cs)
  show ?case
  proof (cases "match_here dec (c # cs)")
    case None
    then have no0: "\<And>m. \<not> occurs_at dec (c # cs) 0 m"
      by (simp add: match_here_None_iff)
    from None Cons.prems have "arxiv_id_match dec cs = Some m" by simp
    from Cons.IH [OF this] obtain n where n: "occurs_at dec cs n m"
      and least: "\<And>n' m'. occurs_at dec cs n' m' \<Longrightarrow> n \<le> n' \<and> (n' = n \<longrightarrow> prefix m' m)"
      by blast
    have "occurs_at dec (c # cs) (Suc n) m" using n by (simp add: occurs_at_Cons)
    moreover have "Suc n \<le> k \<and> (k = Suc n \<longrightarrow> prefix x m)" if "occurs_at dec (c # cs) k x" for k x
    proof (cases k)
      case 0
      with that no0 show ?thesis by blast
    next
      case (Suc j)
      with that have "occurs_at dec cs j x" by (simp add: occurs_at_Cons)
      from least [OF this] Suc show ?thesis by simp
    qed
    ultimately show ?thesis by blast
  next
    case (Some m0)
    with Cons.prems have eq: "m0 = m" by simp
    from match_here_Some [OF Some] have o: "occurs_at dec (c # cs) 0 m"
      by (auto simp: occurs_at_def eq)
    have "prefix m' m" if "occurs_at dec (c # cs) 0 m'" for m'
    proof -
      from that have "digits_dot_digits dec m'" "prefix (ascii ''/papers/'' @ m') (c # cs)"
        by (auto simp: occurs_at_def)
      from match_here_complete [OF this] Some eq show ?thesis by simp
    qed
    with o show ?thesis by blast
  qed
qed

section \<open>The harvesting loop: trace and invariant\<close>

lemma fetch_events_simps:
  "fetch_events [] = []"
  "fetch_events (p # ps) =
     (case a_href p of Some (Some link) \<Rightarrow> [GetDetail (HF_BASE_URL @ link)] | _ \<Rightarrow> []) @ fetch_events ps"
  "fetch_events (ps @ qs) = fetch_events ps @ fetch_events qs"
  by (auto simp: fetch_events_def List.map_filter_def split: option.splits)

lemma loop_body_Next:
  assumes "loop_body dec s p = Next s'"
  shows "trace s' = trace s @ fetch_events [p] \<and> length (fetch_events [p]) = 1 \<and>
         (case entry_record dec p of
            Some r \<Rightarrow>
              if arxiv_id r \<in> seen_ids s then papers s' = papers s \<and> seen_ids s' = seen_ids s
              else papers s' = papers s @ [r] \<and> seen_ids s' = insert (arxiv_id r) (seen_ids s)
          | None \<Rightarrow> papers s' = papers s \<and> seen_ids s' = seen_ids s)"
  using assms
  by (auto simp: loop_body_def entry_record_def fetch_events_simps Let_def new_paper_def
      split: option.splits sum.splits prod.splits if_splits)

lemma loop_body_Raised:
  assumes "loop_body dec s p = Raised e tr"
  shows "\<exists>lg. tr = trace s @ lg \<and> prefix lg (fetch_events [p])"
  using assms
  by (auto simp: loop_body_def fetch_events_simps Let_def
      split: option.splits sum.splits prod.splits if_splits)

lemma harvest_append:
  "harvest dec s (ps @ qs) =
     (case harvest dec s ps of Raised e tr \<Rightarrow> Raised e tr | Next s' \<Rightarrow> harvest dec s' qs)"
  by (induction ps arbitrary: s) (auto split: outcome.splits)

lemma harvest_Next_trace:
  "harvest dec s ps = Next s' \<Longrightarrow>
     trace s' = trace s @ fetch_events ps \<and> length (fetch_events ps) = length ps"
proof (induction ps arbitrary: s)
  case Nil
  then show ?case by (simp add: fetch_events_simps)
next
  case (Cons p ps)
  then obtain s1 where b: "loop_body dec s p = Next s1" and h: "harvest dec s1 ps = Next s'"
    by (auto split: outcome.splits)
  have fe: "fetch_events (p # ps) = fetch_events [p] @ fetch_events ps"
    using fetch_events_simps(3) [of "[p]" ps] by simp
  from loop_body_Next [OF b] Cons.IH [OF h] show ?case
    unfolding fe by simp
qed

lemma harvest_Raised_trace:
  "harvest dec s ps = Raised e tr \<Longrightarrow> \<exists>lg. tr = trace s @ lg \<and> prefix lg (fetch_events ps)"
proof (induction ps arbitrary: s)
  case Nil
  then show ?case by simp
next
  case (Cons p ps)
  have fe: "fetch_events (p # ps) = fetch_events [p] @ fetch_events ps"
    using fetch_events_simps(3) [of "[p]" ps] by simp
  show ?case
  proof (cases "loop_body dec s p")
    case (Raised e' tr')
    with Cons.prems have "e' = e" "tr' = tr" by simp_all
    with loop_body_Raised Raised obtain lg where "tr = trace s @ lg" "prefix lg (fetch_events [p])"
      by blast
    then show ?thesis unfolding fe by (metis prefix_prefix)
  next
    case (Next s1)
    with Cons.prems have "harvest dec s1 ps = Raised e tr" by simp
    from Cons.IH [OF this] obtain lg where lg: "tr = trace s1 @ lg" "prefix lg (fetch_events ps)"
      by blast
    from loop_body_Next [OF Next] have "trace s1 = trace s @ fetch_events [p]" by simp
    with lg show ?thesis unfolding fe by auto
  qed
qed

lemma loop_body_inv:
  assumes "loop_body dec s p = Next s'" and "seen_matches_papers s"
  shows "seen_matches_papers s'"
  using loop_body_Next [OF assms(1)] assms(2)
  by (auto simp: seen_matches_papers_def split: option.splits if_splits)

lemma harvest_inv:
  "harvest dec s ps = Next s' \<Longrightarrow> seen_matches_papers s \<Longrightarrow> seen_matches_papers s' \<and> prefix (papers s) (papers s')"
proof (induction ps arbitrary: s)
  case Nil
  then show ?case by simp
next
  case (Cons p ps)
  then obtain s1 where b: "loop_body dec s p = Next s1" and h: "harvest dec s1 ps = Next s'"
    by (auto split: outcome.splits)
  have "seen_matches_papers s1" using loop_body_inv [OF b Cons.prems(2)] .
  from Cons.IH [OF h this] have "seen_matches_papers s'" "prefix (papers s1) (papers s')" by simp_all
  moreover have "prefix (papers s) (papers s1)"
    using loop_body_Next [OF b] by (auto split: option.splits if_splits)
  ultimately show ?case using prefix_order.trans by blast
qed

lemma yields_entry_record: "entry_record dec p = Some r \<Longrightarrow> yields dec p i \<longleftrightarrow> i = arxiv_id r"
  by (auto simp: yields_def)

lemma yields_None: "entry_record dec p = None \<Longrightarrow> \<not> yields dec p i"
  by (simp add: yields_def)

lemma harvest_ids:
  "harvest dec s ps = Next s' \<Longrightarrow> seen_matches_papers s \<Longrightarrow>
     arxiv_id ` set (papers s') = seen_ids s \<union> {i. \<exists>p\<in>set ps. yields dec p i}"
proof (induction ps arbitrary: s)
  case Nil
  then show ?case by (simp add: seen_matches_papers_def)
next
  case (Cons p ps)
  then obtain s1 where b: "loop_body dec s p = Next s1" and h: "harvest dec s1 ps = Next s'"
    by (auto split: outcome.splits)
  have i1: "seen_matches_papers s1" using loop_body_inv [OF b Cons.prems(2)] .
  have "seen_ids s1 = seen_ids s \<union> {i. yields dec p i}"
    using loop_body_Next [OF b]
    by (cases "entry_record dec p") (auto simp: yields_entry_record yields_None split: if_splits)
  with Cons.IH [OF h i1] show ?case by auto
qed

lemma harvest_first:
  "harvest dec s ps = Next s' \<Longrightarrow> seen_matches_papers s \<Longrightarrow> r \<in> set (papers s') \<Longrightarrow> arxiv_id r \<notin> seen_ids s \<Longrightarrow>
     \<exists>p. find (\<lambda>p. yields dec p (arxiv_id r)) ps = Some p \<and> entry_record dec p = Some r"
proof (induction ps arbitrary: s)
  case Nil
  then show ?case by (auto simp: seen_matches_papers_def)
next
  case (Cons p ps)
  then obtain s1 where b: "loop_body dec s p = Next s1" and h: "harvest dec s1 ps = Next s'"
    by (auto split: outcome.splits)
  have i1: "seen_matches_papers s1" using loop_body_inv [OF b Cons.prems(2)] .
  from harvest_inv [OF h i1] have i': "seen_matches_papers s'" and pre: "prefix (papers s1) (papers s')" by simp_all
  show ?case
  proof (cases "yields dec p (arxiv_id r)")
    case True
    then obtain r0 where r0: "entry_record dec p = Some r0" "arxiv_id r0 = arxiv_id r"
      by (auto simp: yields_def)
    with loop_body_Next [OF b] Cons.prems(4) have "papers s1 = papers s @ [r0]" by simp
    with pre have "r0 \<in> set (papers s')" by (auto simp: prefix_def)
    with i' Cons.prems(3) r0(2) have "r0 = r"
      by (auto simp: seen_matches_papers_def distinct_map inj_on_def)
    with True r0 show ?thesis by simp
  next
    case False
    have "seen_ids s1 = seen_ids s \<union> {i. yields dec p i}"
      using loop_body_Next [OF b]
      by (cases "entry_record dec p") (auto simp: yields_entry_record yields_None split: if_splits)
    with False Cons.prems(4) have "arxiv_id r \<notin> seen_ids s1" by simp
    from Cons.IH [OF h i1 Cons.prems(3) this] False show ?thesis by simp
  qed
qed

lemma inv_start: "seen_matches_papers (start_state url)"
  by (simp add: seen_matches_papers_def start_state_def)

lemma entry_record_link: "entry_record dec p = Some r \<Longrightarrow> arxiv_link r = ascii ''https://arxiv.org/pdf/'' @ arxiv_id r"
  by (auto simp: entry_record_def new_paper_def split: option.splits sum.splits prod.splits if_splits)

lemma harvest_distinct_links:
  assumes "harvest dec (start_state url) ps = Next s"
  shows "distinct (map arxiv_link (papers s))"
proof -
  define pre where "pre = ascii ''https://arxiv.org/pdf/''"
  have i: "distinct (map arxiv_id (papers s))"
    using harvest_inv [OF assms inv_start] by (simp add: seen_matches_papers_def)
  have "arxiv_link r = pre @ arxiv_id r" if "r \<in> set (papers s)" for r
  proof -
    have "arxiv_id r \<notin> seen_ids (start_state url)" by (simp add: start_state_def)
    from harvest_first [OF assms inv_start that this] obtain p where "entry_record dec p = Some r"
      by blast
    then show ?thesis unfolding pre_def by (rule entry_record_link)
  qed
  then have "map arxiv_link (papers s) = map (\<lambda>r. pre @ arxiv_id r) (papers s)"
    by (intro map_cong) simp_all
  moreover have "distinct (map (\<lambda>r. pre @ arxiv_id r) (papers s))"
    using i by (auto simp: distinct_map inj_on_def)
  ultimately show ?thesis by (simp only:)
qed

section \<open>The download stage: what survives\<close>

lemma collect_results_filter:
  "collect_results rs ps = filter (\<lambda>paper. (arxiv_link paper, False) \<notin> set rs) ps"
proof (induction rs arbitrary: ps)
  case Nil
  then show ?case by simp
next
  case (Cons r rs)
  obtain link success where r: "r = (link, success)" by (cases r)
  show ?case unfolding r by (cases success) (auto simp: Cons.IH intro: filter_cong)
qed

lemma download_pdf_fst: "fst (download_pdf a link path) = link"
  by (simp add: download_pdf_def split: sum.splits)

lemma filter_enumerate:
  "(\<And>i. i < length xs \<Longrightarrow> P (xs ! i) \<longleftrightarrow> Q (n + i) (xs ! i)) \<Longrightarrow>
     filter P xs = map snd (filter (\<lambda>(i, x). Q i x) (enumerate n xs))"
proof (induction xs arbitrary: n)
  case Nil
  then show ?case by simp
next
  case (Cons x xs)
  have "P (xs ! i) \<longleftrightarrow> Q (Suc n + i) (xs ! i)" if "i < length xs" for i
    using Cons.prems [of "Suc i"] that by simp
  from Cons.IH [of "Suc n", OF this] Cons.prems [of 0] show ?case by simp
qed

lemma failed_link_iff:
  assumes "distinct (map arxiv_link ps)" and "j < length ps"
  shows "(arxiv_link (ps ! j), False) \<in> set (submit_all w ps) \<longleftrightarrow> \<not> task_ok w j (ps ! j)"
proof
  assume "(arxiv_link (ps ! j), False) \<in> set (submit_all w ps)"
  then obtain i where i: "i < length ps"
    and eq: "download_pdf (download_attempt w i) (arxiv_link (ps ! i)) (pdf_path (ps ! i)) = (arxiv_link (ps ! j), False)"
    by (auto simp: submit_all_def in_set_enumerate_eq)
  from eq download_pdf_fst [of "download_attempt w i" "arxiv_link (ps ! i)" "pdf_path (ps ! i)"]
  have "arxiv_link (ps ! i) = arxiv_link (ps ! j)" by simp
  with assms i have "i = j"
    by (metis distinct_conv_nth length_map nth_map)
  with eq show "\<not> task_ok w j (ps ! j)" by (simp add: task_ok_def)
next
  assume "\<not> task_ok w j (ps ! j)"
  then have "download_pdf (download_attempt w j) (arxiv_link (ps ! j)) (pdf_path (ps ! j)) = (arxiv_link (ps ! j), False)"
    using download_pdf_fst [of "download_attempt w j" "arxiv_link (ps ! j)" "pdf_path (ps ! j)"]
    by (simp add: task_ok_def prod_eq_iff)
  moreover have "(j, ps ! j) \<in> set (enumerate 0 ps)"
    using assms(2) by (simp add: in_set_enumerate_eq)
  ultimately show "(arxiv_link (ps ! j), False) \<in> set (submit_all w ps)"
    unfolding submit_all_def by force
qed

lemma download_stage_distinct:
  assumes "distinct (map arxiv_link ps)"
    and "mset (as_completed w (submit_all w ps)) = mset (submit_all w ps)"
  shows "download_stage w ps = map snd (filter (\<lambda>(i, paper). task_ok w i paper) (enumerate 0 ps))"
proof -
  have "set (as_completed w (submit_all w ps)) = set (submit_all w ps)"
    using assms(2) by (rule mset_eq_setD)
  then have "download_stage w ps = filter (\<lambda>paper. (arxiv_link paper, False) \<notin> set (submit_all w ps)) ps"
    by (simp add: download_stage_def collect_results_filter)
  also have "\<dots> = map snd (filter (\<lambda>(i, paper). task_ok w i paper) (enumerate 0 ps))"
    by (rule filter_enumerate) (simp add: failed_link_iff [OF assms(1)])
  finally show ?thesis .
qed

lemma filter_distinct_key:
  "distinct (map f xs) \<Longrightarrow> x \<in> set xs \<Longrightarrow> filter (\<lambda>y. f y = f x) xs = [x]"
proof (induction xs)
  case Nil
  then show ?case by simp
next
  case (Cons a xs)
  show ?case
  proof (cases "a = x")
    case True
    with Cons.prems(1) have "f x \<notin> f ` set xs" by simp
    then have "filter (\<lambda>y. f y = f x) xs = []"
      unfolding filter_empty_conv by (metis imageI)
    with True show ?thesis by simp
  next
    case False
    with Cons.prems have "x \<in> set xs" "f a \<noteq> f x" by auto
    with Cons show ?thesis by simp
  qed
qed

section \<open>Runs that an exception ends\<close>

lemma fetch_events_GetDetail: "ev \<in> set (fetch_events ps) \<Longrightarrow> \<exists>u. ev = GetDetail u"
  by (auto simp: fetch_events_def List.map_filter_def split: option.splits)

lemma harvest_abort_at:
  assumes "\<And>s. loop_body dec s p = Raised e0 (trace s @ lg0)"
  shows "\<exists>e lg. harvest dec s0 (pre @ p # post) = Raised e (trace s0 @ lg) \<and>
           prefix lg (fetch_events pre @ lg0) \<and>
           (\<forall>s. harvest dec s0 pre = Next s \<longrightarrow> lg = fetch_events pre @ lg0 \<and> e = e0)"
proof (cases "harvest dec s0 pre")
  case (Raised e tr)
  from harvest_Raised_trace [OF this] obtain lg where "tr = trace s0 @ lg" "prefix lg (fetch_events pre)"
    by blast
  moreover have "harvest dec s0 (pre @ p # post) = Raised e tr"
    by (simp add: harvest_append Raised)
  ultimately show ?thesis using Raised by auto
next
  case (Next s1)
  from harvest_Next_trace [OF this] have "trace s1 = trace s0 @ fetch_events pre" by simp
  moreover have "harvest dec s0 (pre @ p # post) = Raised e0 (trace s1 @ lg0)"
    by (simp add: harvest_append Next assms)
  ultimately show ?thesis using Next by simp
qed

lemma pull_hf_daily_Raised:
  assumes "requests_get_listing w (listing_url w date_arg) = Inr (200, articles)"
    and "harvest (unicode_decimal w) (start_state (listing_url w date_arg)) articles = Raised e tr"
  shows "pull_hf_daily w date_arg = tr @ [Uncaught e]"
  using assms by (simp add: pull_hf_daily_def Let_def)

lemma pull_hf_daily_Next:
  assumes "requests_get_listing w (listing_url w date_arg) = Inr (200, articles)"
    and "harvest (unicode_decimal w) (start_state (listing_url w date_arg)) articles = Next s"
  shows "pull_hf_daily w date_arg =
           trace s @ map (\<lambda>paper. Download (arxiv_link paper) (pdf_path paper)) (papers s)
           @ [MakeDirs (ascii ''data''), WriteJson (data_file_path w) (download_stage w (papers s))]"
  using assms by (simp add: pull_hf_daily_def Let_def)

lemma harvest_trace_no_write:
  assumes "harvest dec (start_state url) ps = Next s"
  shows "WriteJson path js \<notin> set (trace s)"
proof
  assume "WriteJson path js \<in> set (trace s)"
  with harvest_Next_trace [OF assms] have "WriteJson path js \<in> set (fetch_events ps)"
    by (auto simp: start_state_def)
  from fetch_events_GetDetail [OF this] show False by simp
qed

lemma harvest_Raised_no_write:
  assumes "harvest dec (start_state url) ps = Raised e tr"
  shows "WriteJson path js \<notin> set tr"
proof
  assume a: "WriteJson path js \<in> set tr"
  from harvest_Raised_trace [OF assms] obtain lg where lg: "tr = trace (start_state url) @ lg"
    "prefix lg (fetch_events ps)" by blast
  with a have "WriteJson path js \<in> set lg" by (auto simp: start_state_def)
  with lg(2) have "WriteJson path js \<in> set (fetch_events ps)"
    using set_mono_prefix by blast
  from fetch_events_GetDetail [OF this] show False by simp
qed

section \<open>Evaluating the sample inputs\<close>

lemmas harvest_eval = start_state_def loop_body_def sample_article_def sample_page_def
  match_here_def is_digit_def sample_decimal_def HF_BASE_URL_def ascii_def

lemmas run_eval = pull_hf_daily_def listing_url_def data_file_path_def HF_PAPERS_URL_def
  sample_world_def download_stage_def submit_all_def download_pdf_def new_paper_def
  ascii_def enumerate_eq_zip upt_rec

section \<open>The claims\<close>

subsection \<open>C1: the records that survive the download stage\<close>

text \<open>
  Claim C1. Whatever the listing and whatever the order in which the pool hands the
  download results back (any permutation of the submitted results), the list left after
  the download loop holds exactly the harvested records whose own download task
  reported success, in the order of the harvest; it is a subsequence of the harvested
  list. The harvest gives every record a link of its own, so filtering by link removes
  the failed records and no other.
\<close>

theorem download_stage_survivors:
  assumes "harvest dec (start_state url) articles = Next s"
    and "mset (as_completed w (submit_all w (papers s))) = mset (submit_all w (papers s))"
  shows "download_stage w (papers s) =
           map snd (filter (\<lambda>(i, paper). task_ok w i paper) (enumerate 0 (papers s))) \<and>
         subseq (download_stage w (papers s)) (papers s)"
proof -
  have "distinct (map arxiv_link (papers s))"
    using assms(1) by (rule harvest_distinct_links)
  then have "download_stage w (papers s) =
           map snd (filter (\<lambda>(i, paper). task_ok w i paper) (enumerate 0 (papers s)))"
    using assms(2) by (rule download_stage_distinct)
  moreover have "subseq (download_stage w (papers s)) (papers s)"
    by (simp add: download_stage_def collect_results_filter)
  ultimately show ?thesis by simp
qed

text \<open>
  The listing of the specification's scenario: two papers and a duplicate of the first,
  the second download fails, the pool reports in reverse order.
\<close>

theorem download_stage_survivors_witness:
  "\<exists>s. harvest sample_decimal (start_state (ascii ''u''))
          [sample_article (ascii ''/papers/2401.00001'') (ascii ''A''), sample_article (ascii ''/papers/2401.00002'') (ascii ''B''),
           sample_article (ascii ''/papers/2401.00001'') (ascii ''C'')] = Next s \<and>
       mset (as_completed (sample_world 200 [] {1}) (submit_all (sample_world 200 [] {1}) (papers s)))
         = mset (submit_all (sample_world 200 [] {1}) (papers s)) \<and>
       papers s = [new_paper (ascii ''/papers/2401.00001'') (ascii ''A'') (ascii ''Abstract'') (ascii ''2401.00001''),
                   new_paper (ascii ''/papers/2401.00002'') (ascii ''B'') (ascii ''Abstract'') (ascii ''2401.00002'')] \<and>
       download_stage (sample_world 200 [] {1}) (papers s)
         = [new_paper (ascii ''/papers/2401.00001'') (ascii ''A'') (ascii ''Abstract'') (ascii ''2401.00001'')] \<and>
       subseq (download_stage (sample_world 200 [] {1}) (papers s)) (papers s)"
proof -
  let ?w = "sample_world 200 [] {1}"
  let ?s = "\<lparr>papers = [new_paper (ascii ''/papers/2401.00001'') (ascii ''A'') (ascii ''Abstract'') (ascii ''2401.00001''),
                        new_paper (ascii ''/papers/2401.00002'') (ascii ''B'') (ascii ''Abstract'') (ascii ''2401.00002'')],
             seen_ids = {ascii ''2401.00002'', ascii ''2401.00001''},
             trace = [GetListing (ascii ''u''), MakeDirs (ascii ''temp_pdfs''),
                      GetDetail (ascii ''https://huggingface.co/papers/2401.00001''),
                      GetDetail (ascii ''https://huggingface.co/papers/2401.00002''),
                      GetDetail (ascii ''https://huggingface.co/papers/2401.00001'')]\<rparr>"
  have h: "harvest sample_decimal (start_state (ascii ''u''))
          [sample_article (ascii ''/papers/2401.00001'') (ascii ''A''), sample_article (ascii ''/papers/2401.00002'') (ascii ''B''),
           sample_article (ascii ''/papers/2401.00001'') (ascii ''C'')] = Next ?s"
    by (simp add: harvest_eval new_paper_def)
  have m: "mset (as_completed ?w (submit_all ?w (papers ?s))) = mset (submit_all ?w (papers ?s))"
    by (simp add: sample_world_def)
  have e: "map snd (filter (\<lambda>(i, paper). task_ok ?w i paper) (enumerate 0 (papers ?s)))
      = [new_paper (ascii ''/papers/2401.00001'') (ascii ''A'') (ascii ''Abstract'') (ascii ''2401.00001'')]"
    by (simp add: task_ok_def download_pdf_def sample_world_def new_paper_def ascii_def
        enumerate_eq_zip upt_rec)
  from download_stage_survivors [OF h m] e h m show ?thesis
    by (intro exI [of _ ?s]) simp
qed

subsection \<open>C2: a detail page without title or abstract\<close>

text \<open>
  Claim C2 says that an article whose detail page arrives with status 200 but lacks the
  title heading or the abstract paragraph is skipped and that no exception leaves the
  harvest. The loop reads \<^verbatim>\<open>.text\<close> of what \<^verbatim>\<open>soup.find\<close> returns without a check
  and has no handler: on the listing below the run ends with \<^verbatim>\<open>AttributeError\<close> at the
  first article, the second article is never requested and nothing is written.
\<close>

theorem missing_element_counterexample:
  "pull_hf_daily
     (sample_world 200
        [\<lparr>a_href = Some (Some (ascii ''/papers/2401.00003'')),
          detail_reply = Inr (200, \<lparr>h1_text = None, p_text = Some (ascii ''Abstract'')\<rparr>)\<rparr>,
         sample_article (ascii ''/papers/2401.00002'') (ascii ''B'')] {})
     (Some (ascii ''2024-01-01''))
   = [GetListing (ascii ''https://huggingface.co/papers/date/2024-01-01''), MakeDirs (ascii ''temp_pdfs''),
      GetDetail (ascii ''https://huggingface.co/papers/2401.00003''), Uncaught AttributeError]"
  by (simp add: harvest_eval run_eval)

text \<open>
  Claim C2, as the code has it. When the listing holds an article whose detail page
  arrives with status 200 without the title heading or without the abstract paragraph,
  the run ends in an uncaught exception: its trace is the listing request, the staging
  directory, detail requests of articles up to that one at most, and the exception; no
  later article is requested, nothing is downloaded, no file is written. When the
  articles before it all pass, the requests are exactly theirs and its own, and the
  exception is \<^verbatim>\<open>AttributeError\<close>.
\<close>

theorem missing_element_aborts_run:
  assumes "requests_get_listing w (listing_url w date_arg) = Inr (200, pre @ p # post)"
    and "a_href p = Some (Some link)"
    and "detail_reply p = Inr (200, soup)"
    and "h1_text soup = None \<or> p_text soup = None"
  shows "\<exists>e lg. pull_hf_daily w date_arg =
             [GetListing (listing_url w date_arg), MakeDirs (ascii ''temp_pdfs'')] @ lg @ [Uncaught e] \<and>
           prefix lg (fetch_events (pre @ [p])) \<and>
           (\<forall>s. harvest (unicode_decimal w) (start_state (listing_url w date_arg)) pre = Next s \<longrightarrow>
                lg = fetch_events (pre @ [p]) \<and> e = AttributeError)"
proof -
  let ?s0 = "start_state (listing_url w date_arg)"
  have fe: "fetch_events (pre @ [p]) = fetch_events pre @ [GetDetail (HF_BASE_URL @ link)]"
    using assms(2) by (simp add: fetch_events_simps)
  have "loop_body (unicode_decimal w) s p = Raised AttributeError (trace s @ [GetDetail (HF_BASE_URL @ link)])" for s
    using assms(2,3,4) by (auto simp: loop_body_def Let_def split: option.splits)
  from harvest_abort_at [of "unicode_decimal w" p AttributeError "[GetDetail (HF_BASE_URL @ link)]" ?s0 pre post, OF this]
  obtain e lg where h: "harvest (unicode_decimal w) ?s0 (pre @ p # post) = Raised e (trace ?s0 @ lg)"
    and lg: "prefix lg (fetch_events (pre @ [p]))"
    and ex: "\<forall>s. harvest (unicode_decimal w) ?s0 pre = Next s \<longrightarrow> lg = fetch_events (pre @ [p]) \<and> e = AttributeError"
    unfolding fe by auto
  from pull_hf_daily_Raised [OF assms(1) h]
  have "pull_hf_daily w date_arg =
          [GetListing (listing_url w date_arg), MakeDirs (ascii ''temp_pdfs'')] @ lg @ [Uncaught e]"
    by (simp add: start_state_def)
  with lg ex show ?thesis by blast
qed

theorem missing_element_aborts_run_witness:
  "requests_get_listing
     (sample_world 200
        ([sample_article (ascii ''/papers/2401.00001'') (ascii ''A'')] @
         \<lparr>a_href = Some (Some (ascii ''/papers/2401.00003'')),
          detail_reply = Inr (200, \<lparr>h1_text = Some (ascii ''T''), p_text = None\<rparr>)\<rparr> #
         [sample_article (ascii ''/papers/2401.00002'') (ascii ''B'')]) {})
     (listing_url (sample_world 200
        ([sample_article (ascii ''/papers/2401.00001'') (ascii ''A'')] @
         \<lparr>a_href = Some (Some (ascii ''/papers/2401.00003'')),
          detail_reply = Inr (200, \<lparr>h1_text = Some (ascii ''T''), p_text = None\<rparr>)\<rparr> #
         [sample_article (ascii ''/papers/2401.00002'') (ascii ''B'')]) {}) None)
     = Inr (200, [sample_article (ascii ''/papers/2401.00001'') (ascii ''A'')] @
         \<lparr>a_href = Some (Some (ascii ''/papers/2401.00003'')),
          detail_reply = Inr (200, \<lparr>h1_text = Some (ascii ''T''), p_text = None\<rparr>)\<rparr> #
         [sample_article (ascii ''/papers/2401.00002'') (ascii ''B'')]) \<and>
   pull_hf_daily
     (sample_world 200
        ([sample_article (ascii ''/papers/2401.00001'') (ascii ''A'')] @
         \<lparr>a_href = Some (Some (ascii ''/papers/2401.00003'')),
          detail_reply = Inr (200, \<lparr>h1_text = Some (ascii ''T''), p_text = None\<rparr>)\<rparr> #
         [sample_article (ascii ''/papers/2401.00002'') (ascii ''B'')]) {})
     None
   = [GetListing (ascii ''https://huggingface.co/papers/date/2024-01-01''), MakeDirs (ascii ''temp_pdfs''),
      GetDetail (ascii ''https://huggingface.co/papers/2401.00001''),
      GetDetail (ascii ''https://huggingface.co/papers/2401.00003''), Uncaught AttributeError]"
  using missing_element_aborts_run
    [of "sample_world 200
        ([sample_article (ascii ''/papers/2401.00001'') (ascii ''A'')] @
         \<lparr>a_href = Some (Some (ascii ''/papers/2401.00003'')),
          detail_reply = Inr (200, \<lparr>h1_text = Some (ascii ''T''), p_text = None\<rparr>)\<rparr> #
         [sample_article (ascii ''/papers/2401.00002'') (ascii ''B'')]) {}"
      None "[sample_article (ascii ''/papers/2401.00001'') (ascii ''A'')]"
      "\<lparr>a_href = Some (Some (ascii ''/papers/2401.00003'')),
          detail_reply = Inr (200, \<lparr>h1_text = Some (ascii ''T''), p_text = None\<rparr>)\<rparr>"
      "[sample_article (ascii ''/papers/2401.00002'') (ascii ''B'')]" "ascii ''/papers/2401.00003''"
      "\<lparr>h1_text = Some (ascii ''T''), p_text = None\<rparr>"]
  by (simp add: harvest_eval run_eval get_previous_weekday_def)

subsection \<open>C3: the listing request fails\<close>

text \<open>
  Claim C3 says that on a listing status other than success the dated output file
  holds an empty list. The function returns right after the status check: on status
  500 the trace is the listing request alone, and no file is written, empty or not.
\<close>

theorem listing_failure_counterexample:
  "pull_hf_daily (sample_world 500 [sample_article (ascii ''/papers/2401.00001'') (ascii ''A'')] {}) (Some (ascii ''2024-01-01''))
     = [GetListing (ascii ''https://huggingface.co/papers/date/2024-01-01'')] \<and>
   \<not> (\<exists>path. WriteJson path [] \<in>
          set (pull_hf_daily (sample_world 500 [sample_article (ascii ''/papers/2401.00001'') (ascii ''A'')] {})
                 (Some (ascii ''2024-01-01''))))"
  by (simp add: run_eval)

text \<open>
  Claim C3, as the code has it. If the listing request answers with a status other than
  200, the run ends there: no detail page is requested, no download is submitted and no
  output file is written.
\<close>

theorem listing_failure_stops_run:
  assumes "requests_get_listing w (listing_url w date_arg) = Inr (status_code, articles)"
    and "status_code \<noteq> 200"
  shows "pull_hf_daily w date_arg = [GetListing (listing_url w date_arg)]"
  using assms by (simp add: pull_hf_daily_def Let_def)

theorem listing_failure_stops_run_witness:
  "requests_get_listing (sample_world 404 [sample_article (ascii ''/papers/2401.00001'') (ascii ''A'')] {})
     (listing_url (sample_world 404 [sample_article (ascii ''/papers/2401.00001'') (ascii ''A'')] {}) None)
     = Inr (404, [sample_article (ascii ''/papers/2401.00001'') (ascii ''A'')]) \<and>
   (404::nat) \<noteq> 200 \<and>
   pull_hf_daily (sample_world 404 [sample_article (ascii ''/papers/2401.00001'') (ascii ''A'')] {}) None
     = [GetListing (ascii ''https://huggingface.co/papers/date/2024-01-01'')]"
  using listing_failure_stops_run
    [of "sample_world 404 [sample_article (ascii ''/papers/2401.00001'') (ascii ''A'')] {}" None 404
      "[sample_article (ascii ''/papers/2401.00001'') (ascii ''A'')]"]
  by (simp add: sample_world_def listing_url_def get_previous_weekday_def HF_PAPERS_URL_def
      ascii_def)

subsection \<open>C4: the duplicate check comes after the detail request\<close>

text \<open>
  Claim C4 says that the identifier is extracted and checked against the seen
  identifiers before the detail page is requested, so that a duplicate never triggers a
  request. The loop requests the detail page first. In the specification's scenario
  (two papers and a duplicate of the first) the page of the first paper is requested
  twice.
\<close>

theorem duplicate_fetched_counterexample:
  "pull_hf_daily
     (sample_world 200
        [sample_article (ascii ''/papers/2401.00001'') (ascii ''A''), sample_article (ascii ''/papers/2401.00002'') (ascii ''B''),
         sample_article (ascii ''/papers/2401.00001'') (ascii ''A'')] {1})
     (Some (ascii ''2024-01-01''))
   = [GetListing (ascii ''https://huggingface.co/papers/date/2024-01-01''), MakeDirs (ascii ''temp_pdfs''),
      GetDetail (ascii ''https://huggingface.co/papers/2401.00001''),
      GetDetail (ascii ''https://huggingface.co/papers/2401.00002''),
      GetDetail (ascii ''https://huggingface.co/papers/2401.00001''),
      Download (ascii ''https://arxiv.org/pdf/2401.00001'') (ascii ''temp_pdfs/2401.00001.pdf''),
      Download (ascii ''https://arxiv.org/pdf/2401.00002'') (ascii ''temp_pdfs/2401.00002.pdf''),
      MakeDirs (ascii ''data''),
      WriteJson (ascii ''data/2024-01-02_papers.json'')
        [\<lparr>title = ascii ''A'', arxiv_id = ascii ''2401.00001'',
          arxiv_link = ascii ''https://arxiv.org/pdf/2401.00001'',
          hf_link = ascii ''https://huggingface.co/papers/2401.00001'',
          pdf_path = ascii ''temp_pdfs/2401.00001.pdf'', abstract = ascii ''Abstract''\<rparr>]]"
  by (simp add: harvest_eval run_eval)

text \<open>
  Claim C4, as the code has it. For every article that has a link, the detail page is
  requested first, whatever the link and whatever identifiers have been seen: however
  the turn of the loop ends, its trace is the trace so far and that request. The
  identifier is extracted and checked against the seen identifiers only afterwards,
  once the page has arrived with status 200 and its title and abstract have been read.
  So an article whose identifier is already seen still triggers a request and never
  adds a record: it is skipped, with the records and the seen identifiers unchanged,
  when its page arrives with title and abstract or with a status other than 200, and
  the run ends in an uncaught exception when its request raises or its page arrives
  with status 200 without the title or the abstract. A harvest that completes has
  requested one detail page per article, in document order, duplicates included.
\<close>

theorem duplicate_entry_fetched_not_recorded:
  "(a_href p = Some (Some link) \<longrightarrow>
      outcome_trace (loop_body dec s p) = trace s @ [GetDetail (HF_BASE_URL @ link)]) \<and>
   (a_href p = Some (Some link) \<longrightarrow> arxiv_id_match dec link = Some ident \<longrightarrow>
    ident \<in> seen_ids s \<longrightarrow>
      loop_body dec s p =
        (case detail_reply p of
           Inl e \<Rightarrow> Raised e (trace s @ [GetDetail (HF_BASE_URL @ link)])
         | Inr (status_code, soup) \<Rightarrow>
             if status_code = 200 \<and> (h1_text soup = None \<or> p_text soup = None)
             then Raised AttributeError (trace s @ [GetDetail (HF_BASE_URL @ link)])
             else Next (s\<lparr>trace := trace s @ [GetDetail (HF_BASE_URL @ link)]\<rparr>))) \<and>
   (harvest dec s0 ps = Next s' \<longrightarrow>
      trace s' = trace s0 @ fetch_events ps \<and> length (fetch_events ps) = length ps)"
proof -
  have "outcome_trace (loop_body dec s p) = trace s @ [GetDetail (HF_BASE_URL @ link)]"
    if "a_href p = Some (Some link)"
    using that
    by (auto simp: loop_body_def Let_def split: option.splits sum.splits prod.splits)
  moreover have "loop_body dec s p =
        (case detail_reply p of
           Inl e \<Rightarrow> Raised e (trace s @ [GetDetail (HF_BASE_URL @ link)])
         | Inr (status_code, soup) \<Rightarrow>
             if status_code = 200 \<and> (h1_text soup = None \<or> p_text soup = None)
             then Raised AttributeError (trace s @ [GetDetail (HF_BASE_URL @ link)])
             else Next (s\<lparr>trace := trace s @ [GetDetail (HF_BASE_URL @ link)]\<rparr>))"
    if "a_href p = Some (Some link)" "arxiv_id_match dec link = Some ident" "ident \<in> seen_ids s"
    using that
    by (auto simp: loop_body_def Let_def split: option.splits sum.splits prod.splits)
  moreover have "trace s' = trace s0 @ fetch_events ps \<and> length (fetch_events ps) = length ps"
    if "harvest dec s0 ps = Next s'"
    using that by (rule harvest_Next_trace)
  ultimately show ?thesis by blast
qed

text \<open>
  A duplicate whose page is complete is requested and skipped; a duplicate whose page
  lacks the abstract is requested and ends the run; the harvest of a listing with a
  duplicate has requested the same page twice.
\<close>

theorem duplicate_entry_fetched_not_recorded_witness:
  "ascii ''2401.00001'' \<in> seen_ids \<lparr>papers = [], seen_ids = {ascii ''2401.00001''}, trace = []\<rparr> \<and>
   arxiv_id_match sample_decimal (ascii ''/papers/2401.00001'') = Some (ascii ''2401.00001'') \<and>
   loop_body sample_decimal \<lparr>papers = [], seen_ids = {ascii ''2401.00001''}, trace = []\<rparr>
       (sample_article (ascii ''/papers/2401.00001'') (ascii ''A''))
     = Next \<lparr>papers = [], seen_ids = {ascii ''2401.00001''},
             trace = [GetDetail (ascii ''https://huggingface.co/papers/2401.00001'')]\<rparr> \<and>
   loop_body sample_decimal \<lparr>papers = [], seen_ids = {ascii ''2401.00001''}, trace = []\<rparr>
       \<lparr>a_href = Some (Some (ascii ''/papers/2401.00001'')),
        detail_reply = Inr (200, \<lparr>h1_text = Some (ascii ''A''), p_text = None\<rparr>)\<rparr>
     = Raised AttributeError [GetDetail (ascii ''https://huggingface.co/papers/2401.00001'')] \<and>
   harvest sample_decimal (start_state (ascii ''u''))
     [sample_article (ascii ''/papers/2401.00001'') (ascii ''A''),
      sample_article (ascii ''/papers/2401.00001'') (ascii ''A'')]
     = Next \<lparr>papers = [new_paper (ascii ''/papers/2401.00001'') (ascii ''A'') (ascii ''Abstract'')
                         (ascii ''2401.00001'')],
             seen_ids = {ascii ''2401.00001''},
             trace = [GetListing (ascii ''u''), MakeDirs (ascii ''temp_pdfs''),
                      GetDetail (ascii ''https://huggingface.co/papers/2401.00001''),
                      GetDetail (ascii ''https://huggingface.co/papers/2401.00001'')]\<rparr> \<and>
   fetch_events [sample_article (ascii ''/papers/2401.00001'') (ascii ''A''),
                 sample_article (ascii ''/papers/2401.00001'') (ascii ''A'')]
     = [GetDetail (ascii ''https://huggingface.co/papers/2401.00001''),
        GetDetail (ascii ''https://huggingface.co/papers/2401.00001'')]"
proof -
  let ?s = "\<lparr>papers = [], seen_ids = {ascii ''2401.00001''}, trace = []\<rparr>"
  let ?bad = "\<lparr>a_href = Some (Some (ascii ''/papers/2401.00001'')),
        detail_reply = Inr (200, \<lparr>h1_text = Some (ascii ''A''), p_text = None\<rparr>)\<rparr>"
  let ?dup = "sample_article (ascii ''/papers/2401.00001'') (ascii ''A'')"
  let ?end = "\<lparr>papers = [new_paper (ascii ''/papers/2401.00001'') (ascii ''A'') (ascii ''Abstract'')
                         (ascii ''2401.00001'')],
             seen_ids = {ascii ''2401.00001''},
             trace = [GetListing (ascii ''u''), MakeDirs (ascii ''temp_pdfs''),
                      GetDetail (ascii ''https://huggingface.co/papers/2401.00001''),
                      GetDetail (ascii ''https://huggingface.co/papers/2401.00001'')]\<rparr>"
  have u: "HF_BASE_URL @ ascii ''/papers/2401.00001'' = ascii ''https://huggingface.co/papers/2401.00001''"
    by (simp add: HF_BASE_URL_def ascii_def)
  have i: "ascii ''2401.00001'' \<in> seen_ids ?s" by simp
  have m: "arxiv_id_match sample_decimal (ascii ''/papers/2401.00001'') = Some (ascii ''2401.00001'')"
    by (simp add: match_here_def is_digit_def sample_decimal_def ascii_def)
  have h: "harvest sample_decimal (start_state (ascii ''u'')) [?dup, ?dup] = Next ?end"
    by (simp add: harvest_eval new_paper_def)
  have f: "fetch_events [?dup, ?dup]
     = [GetDetail (ascii ''https://huggingface.co/papers/2401.00001''),
        GetDetail (ascii ''https://huggingface.co/papers/2401.00001'')]"
    by (simp add: fetch_events_simps sample_article_def u)
  from duplicate_entry_fetched_not_recorded
    [of ?dup "ascii ''/papers/2401.00001''" sample_decimal ?s "ascii ''2401.00001''"] i m
  have d1: "loop_body sample_decimal ?s ?dup
     = Next \<lparr>papers = [], seen_ids = {ascii ''2401.00001''},
             trace = [GetDetail (ascii ''https://huggingface.co/papers/2401.00001'')]\<rparr>"
    by (simp add: sample_article_def sample_page_def u)
  from duplicate_entry_fetched_not_recorded
    [of ?bad "ascii ''/papers/2401.00001''" sample_decimal ?s "ascii ''2401.00001''"] i m
  have d2: "loop_body sample_decimal ?s ?bad
     = Raised AttributeError [GetDetail (ascii ''https://huggingface.co/papers/2401.00001'')]"
    by (simp add: u)
  from i m d1 d2 h f show ?thesis by (simp only: simp_thms)
qed

subsection \<open>C5: one record per identifier, the first\<close>

text \<open>
  Claim C5. In the record list of a harvest that completes, no identifier occurs twice.
  An article yields an identifier when its detail page arrives with status 200, has
  title and abstract, and its link has that identifier. For every identifier that some
  article yields, the list holds exactly one record with it, and that record is the one
  built from the first article, in document order, that yields it; later ones add
  nothing. Every record of the list comes from an article in this way.
\<close>

theorem harvest_first_occurrence_wins:
  assumes "harvest dec (start_state url) ps = Next s"
  shows "distinct (map arxiv_id (papers s)) \<and>
         (\<forall>ident. (\<exists>p\<in>set ps. yields dec p ident) \<longrightarrow>
            (\<exists>r p. filter (\<lambda>r. arxiv_id r = ident) (papers s) = [r] \<and>
               find (\<lambda>p. yields dec p ident) ps = Some p \<and> entry_record dec p = Some r)) \<and>
         (\<forall>r\<in>set (papers s). \<exists>p\<in>set ps. yields dec p (arxiv_id r))"
proof -
  have i: "seen_matches_papers s" using harvest_inv [OF assms inv_start] by simp
  then have d: "distinct (map arxiv_id (papers s))" by (simp add: seen_matches_papers_def)
  have ids: "arxiv_id ` set (papers s) = {i. \<exists>p\<in>set ps. yields dec p i}"
    using harvest_ids [OF assms inv_start] by (simp add: start_state_def)
  have "\<exists>r p. filter (\<lambda>r. arxiv_id r = ident) (papers s) = [r] \<and>
               find (\<lambda>p. yields dec p ident) ps = Some p \<and> entry_record dec p = Some r"
    if "\<exists>p\<in>set ps. yields dec p ident" for ident
  proof -
    from that have "ident \<in> {i. \<exists>p\<in>set ps. yields dec p i}" by simp
    then have "ident \<in> arxiv_id ` set (papers s)" by (simp only: ids)
    then obtain r where r: "r \<in> set (papers s)" "arxiv_id r = ident" by auto
    have "arxiv_id r \<notin> seen_ids (start_state url)" by (simp add: start_state_def)
    from harvest_first [OF assms inv_start r(1) this] r(2)
    obtain p where "find (\<lambda>p. yields dec p ident) ps = Some p" "entry_record dec p = Some r" by auto
    moreover have "filter (\<lambda>y. arxiv_id y = ident) (papers s) = [r]"
      using filter_distinct_key [OF d r(1)] r(2) by simp
    ultimately show ?thesis by blast
  qed
  moreover have "\<exists>p\<in>set ps. yields dec p (arxiv_id r)" if "r \<in> set (papers s)" for r
  proof -
    from that have "arxiv_id r \<in> arxiv_id ` set (papers s)" by (rule imageI)
    then have "arxiv_id r \<in> {i. \<exists>p\<in>set ps. yields dec p i}" by (simp only: ids)
    then show ?thesis by simp
  qed
  ultimately show ?thesis using d by blast
qed

text \<open>
  Two articles with the same identifier and different titles: the record has the title
  of the first, with its leading newline and space removed.
\<close>

theorem harvest_first_occurrence_wins_witness:
  "harvest sample_decimal (start_state (ascii ''u''))
     [sample_article (ascii ''/papers/2401.00001'') (10 # (ascii '' First'')),
      sample_article (ascii ''/papers/2401.00002'') (ascii ''Other''),
      sample_article (ascii ''/papers/2401.00001#community'') (ascii ''Second'')]
     = Next \<lparr>papers = [new_paper (ascii ''/papers/2401.00001'') (ascii ''First'') (ascii ''Abstract'') (ascii ''2401.00001''),
                       new_paper (ascii ''/papers/2401.00002'') (ascii ''Other'') (ascii ''Abstract'') (ascii ''2401.00002'')],
             seen_ids = {ascii ''2401.00002'', ascii ''2401.00001''},
             trace = [GetListing (ascii ''u''), MakeDirs (ascii ''temp_pdfs''),
                      GetDetail (ascii ''https://huggingface.co/papers/2401.00001''),
                      GetDetail (ascii ''https://huggingface.co/papers/2401.00002''),
                      GetDetail (ascii ''https://huggingface.co/papers/2401.00001#community'')]\<rparr> \<and>
   yields sample_decimal (sample_article (ascii ''/papers/2401.00001#community'') (ascii ''Second'')) (ascii ''2401.00001'') \<and>
   find (\<lambda>p. yields sample_decimal p (ascii ''2401.00001''))
     [sample_article (ascii ''/papers/2401.00001'') (10 # (ascii '' First'')),
      sample_article (ascii ''/papers/2401.00002'') (ascii ''Other''),
      sample_article (ascii ''/papers/2401.00001#community'') (ascii ''Second'')]
     = Some (sample_article (ascii ''/papers/2401.00001'') (10 # (ascii '' First''))) \<and>
   entry_record sample_decimal (sample_article (ascii ''/papers/2401.00001'') (10 # (ascii '' First'')))
     = Some (new_paper (ascii ''/papers/2401.00001'') (ascii ''First'') (ascii ''Abstract'') (ascii ''2401.00001'')) \<and>
   filter (\<lambda>r. arxiv_id r = ascii ''2401.00001'')
     [new_paper (ascii ''/papers/2401.00001'') (ascii ''First'') (ascii ''Abstract'') (ascii ''2401.00001''),
      new_paper (ascii ''/papers/2401.00002'') (ascii ''Other'') (ascii ''Abstract'') (ascii ''2401.00002'')]
     = [new_paper (ascii ''/papers/2401.00001'') (ascii ''First'') (ascii ''Abstract'') (ascii ''2401.00001'')]"
proof -
  let ?first = "sample_article (ascii ''/papers/2401.00001'') (10 # ascii '' First'')"
  let ?second = "sample_article (ascii ''/papers/2401.00001#community'') (ascii ''Second'')"
  let ?r1 = "new_paper (ascii ''/papers/2401.00001'') (ascii ''First'') (ascii ''Abstract'') (ascii ''2401.00001'')"
  let ?r2 = "new_paper (ascii ''/papers/2401.00002'') (ascii ''Other'') (ascii ''Abstract'') (ascii ''2401.00002'')"
  have h: "harvest sample_decimal (start_state (ascii ''u''))
     [?first, sample_article (ascii ''/papers/2401.00002'') (ascii ''Other''), ?second]
     = Next \<lparr>papers = [?r1, ?r2],
             seen_ids = {ascii ''2401.00002'', ascii ''2401.00001''},
             trace = [GetListing (ascii ''u''), MakeDirs (ascii ''temp_pdfs''),
                      GetDetail (ascii ''https://huggingface.co/papers/2401.00001''),
                      GetDetail (ascii ''https://huggingface.co/papers/2401.00002''),
                      GetDetail (ascii ''https://huggingface.co/papers/2401.00001#community'')]\<rparr>"
    by (simp add: harvest_eval new_paper_def)
  have m1: "arxiv_id_match sample_decimal (ascii ''/papers/2401.00001'') = Some (ascii ''2401.00001'')"
    and m2: "arxiv_id_match sample_decimal (ascii ''/papers/2401.00002'') = Some (ascii ''2401.00002'')"
    and m3: "arxiv_id_match sample_decimal (ascii ''/papers/2401.00001#community'') = Some (ascii ''2401.00001'')"
    by (simp_all add: match_here_def is_digit_def sample_decimal_def ascii_def)
  have y: "yields sample_decimal ?second (ascii ''2401.00001'')"
    by (simp add: yields_def entry_record_def sample_article_def sample_page_def m3 new_paper_def)
  have e: "entry_record sample_decimal ?first = Some ?r1"
    by (simp add: entry_record_def sample_article_def sample_page_def m1)
      (simp add: new_paper_def ascii_def)
  have f: "find (\<lambda>p. yields sample_decimal p (ascii ''2401.00001''))
     [?first, sample_article (ascii ''/papers/2401.00002'') (ascii ''Other''), ?second] = Some ?first"
    by (simp add: yields_def entry_record_def sample_article_def sample_page_def m1 new_paper_def)
  have g: "filter (\<lambda>r. arxiv_id r = ascii ''2401.00001'') [?r1, ?r2] = [?r1]"
    by (simp add: new_paper_def ascii_def)
  from harvest_first_occurrence_wins [OF h]
  have "distinct (map arxiv_id [?r1, ?r2])" by simp
  with h y f e g show ?thesis by (simp only: simp_thms)
qed

subsection \<open>C6: the identifier of a link\<close>

text \<open>
  Claim C6 says that for every link without the pattern the caller skips the entry
  rather than aborting the run. The loop reads the title and the abstract of the detail
  page before it searches the link: on the listing below the first link has no
  identifier, its page lacks the abstract, and the run ends with \<^verbatim>\<open>AttributeError\<close>
  at that article.
\<close>

theorem key_extractor_caller_counterexample:
  "arxiv_id_match sample_decimal (ascii ''/papers/trending'') = None \<and>
   pull_hf_daily
     (sample_world 200
        [\<lparr>a_href = Some (Some (ascii ''/papers/trending'')),
          detail_reply = Inr (200, \<lparr>h1_text = Some (ascii ''Trending''), p_text = None\<rparr>)\<rparr>,
         sample_article (ascii ''/papers/2401.00002'') (ascii ''B'')] {})
     (Some (ascii ''2024-01-01''))
   = [GetListing (ascii ''https://huggingface.co/papers/date/2024-01-01''),
      MakeDirs (ascii ''temp_pdfs''),
      GetDetail (ascii ''https://huggingface.co/papers/trending''), Uncaught AttributeError]"
  by (simp add: harvest_eval run_eval)

text \<open>
  Claim C6, as the code has it. A digit is what \<^verbatim>\<open>\d\<close> matches, a Unicode decimal
  digit. If a link holds, somewhere, the prefix \<^verbatim>\<open>/papers/\<close> followed by digits, a dot
  and digits, the search returns such a string: the one at the leftmost such place, and
  the longest one there. If the link holds no such place, the search returns
  \<open>None\<close>. The loop searches the link only after the detail page has arrived with
  status 200 and its title and abstract have been read; on \<open>None\<close> it then skips the
  article and goes on, with the records and the seen identifiers as they were. An
  article with such a link is skipped as well when its page arrives with another
  status, and it ends the run in an uncaught exception, before the search, when its
  request raises or its page arrives with status 200 without the title or the abstract.
\<close>

theorem key_extractor_first_match:
  "((\<exists>n m. occurs_at dec link n m) \<longrightarrow>
      (\<exists>n m. arxiv_id_match dec link = Some m \<and> occurs_at dec link n m \<and>
         (\<forall>n' m'. occurs_at dec link n' m' \<longrightarrow> n \<le> n' \<and> (n' = n \<longrightarrow> prefix m' m)))) \<and>
   (\<not> (\<exists>n m. occurs_at dec link n m) \<longrightarrow> arxiv_id_match dec link = None) \<and>
   (arxiv_id_match dec link = None \<longrightarrow> a_href p = Some (Some link) \<longrightarrow>
      loop_body dec s p =
        (case detail_reply p of
           Inl e \<Rightarrow> Raised e (trace s @ [GetDetail (HF_BASE_URL @ link)])
         | Inr (status_code, soup) \<Rightarrow>
             if status_code = 200 \<and> (h1_text soup = None \<or> p_text soup = None)
             then Raised AttributeError (trace s @ [GetDetail (HF_BASE_URL @ link)])
             else Next (s\<lparr>trace := trace s @ [GetDetail (HF_BASE_URL @ link)]\<rparr>)))"
proof -
  have "\<exists>n m. arxiv_id_match dec link = Some m \<and> occurs_at dec link n m \<and>
         (\<forall>n' m'. occurs_at dec link n' m' \<longrightarrow> n \<le> n' \<and> (n' = n \<longrightarrow> prefix m' m))"
    if "\<exists>n m. occurs_at dec link n m"
  proof -
    from that obtain m where "arxiv_id_match dec link = Some m"
      using arxiv_id_match_None_iff [of dec link] by (cases "arxiv_id_match dec link") auto
    with arxiv_id_match_Some [OF this] show ?thesis by blast
  qed
  moreover have "arxiv_id_match dec link = None" if "\<not> (\<exists>n m. occurs_at dec link n m)"
    using that arxiv_id_match_None_iff by blast
  moreover have "loop_body dec s p =
        (case detail_reply p of
           Inl e \<Rightarrow> Raised e (trace s @ [GetDetail (HF_BASE_URL @ link)])
         | Inr (status_code, soup) \<Rightarrow>
             if status_code = 200 \<and> (h1_text soup = None \<or> p_text soup = None)
             then Raised AttributeError (trace s @ [GetDetail (HF_BASE_URL @ link)])
             else Next (s\<lparr>trace := trace s @ [GetDetail (HF_BASE_URL @ link)]\<rparr>))"
    if "arxiv_id_match dec link = None" "a_href p = Some (Some link)"
    using that
    by (auto simp: loop_body_def Let_def split: option.splits sum.splits prod.splits)
  ultimately show ?thesis by blast
qed

text \<open>
  A link whose identifier ends in the Arabic-Indic digit one (U+0661), a link without
  an identifier whose page is complete, and a link where a letter stands among the
  digits.
\<close>

theorem key_extractor_first_match_witness:
  "occurs_at sample_decimal (ascii ''https://huggingface.co/papers/2401.0000'' @ [1633] @ ascii ''v2'')
     22 (ascii ''2401.0000'' @ [1633]) \<and>
   arxiv_id_match sample_decimal (ascii ''https://huggingface.co/papers/2401.0000'' @ [1633] @ ascii ''v2'')
     = Some (ascii ''2401.0000'' @ [1633]) \<and>
   \<not> (\<exists>n m. occurs_at sample_decimal (ascii ''/papers/trending'') n m) \<and>
   arxiv_id_match sample_decimal (ascii ''/papers/trending'') = None \<and>
   arxiv_id_match sample_decimal (ascii ''/papers/24a1.0001'') = None \<and>
   loop_body sample_decimal (start_state (ascii ''u''))
       (sample_article (ascii ''/papers/trending'') (ascii ''T''))
     = Next \<lparr>papers = [], seen_ids = {},
             trace = [GetListing (ascii ''u''), MakeDirs (ascii ''temp_pdfs''),
                      GetDetail (ascii ''https://huggingface.co/papers/trending'')]\<rparr>"
proof -
  let ?l = "ascii ''https://huggingface.co/papers/2401.0000'' @ [1633] @ ascii ''v2''"
  have n: "arxiv_id_match sample_decimal (ascii ''/papers/trending'') = None"
    by (simp add: match_here_def is_digit_def sample_decimal_def ascii_def)
  then have no: "\<not> (\<exists>n m. occurs_at sample_decimal (ascii ''/papers/trending'') n m)"
    using arxiv_id_match_None_iff by blast
  have a: "arxiv_id_match sample_decimal (ascii ''/papers/24a1.0001'') = None"
    by (simp add: match_here_def is_digit_def sample_decimal_def ascii_def)
  have o: "occurs_at sample_decimal ?l 22 (ascii ''2401.0000'' @ [1633])"
    by (simp add: occurs_at_def digits_dot_digits_def is_digit_def sample_decimal_def ascii_def)
  then have "\<exists>n m. occurs_at sample_decimal ?l n m" by blast
  with key_extractor_first_match [of sample_decimal ?l]
  obtain k x where x: "arxiv_id_match sample_decimal ?l = Some x"
    and "occurs_at sample_decimal ?l k x"
    and least: "\<forall>n' m'. occurs_at sample_decimal ?l n' m' \<longrightarrow> k \<le> n' \<and> (n' = k \<longrightarrow> prefix m' x)"
    by blast
  have m: "arxiv_id_match sample_decimal ?l = Some (ascii ''2401.0000'' @ [1633])"
    by (simp add: match_here_def is_digit_def sample_decimal_def ascii_def)
  from key_extractor_first_match
    [of sample_decimal "ascii ''/papers/trending''"
      "sample_article (ascii ''/papers/trending'') (ascii ''T'')" "start_state (ascii ''u'')"] n
  have b: "loop_body sample_decimal (start_state (ascii ''u''))
       (sample_article (ascii ''/papers/trending'') (ascii ''T''))
     = Next \<lparr>papers = [], seen_ids = {},
             trace = [GetListing (ascii ''u''), MakeDirs (ascii ''temp_pdfs''),
                      GetDetail (ascii ''https://huggingface.co/papers/trending'')]\<rparr>"
    by (simp add: sample_article_def sample_page_def start_state_def HF_BASE_URL_def ascii_def)
  from o m no n a b show ?thesis by (simp only: simp_thms)
qed

subsection \<open>C9: the name of the output file\<close>

text \<open>
  Claim C9. With an explicit date argument, the only file a run writes is named after
  the day the clock shows when the harvest and the downloads are over, not after the
  date asked for: every write of the run goes to \<^verbatim>\<open>data/T_papers.json\<close>, \<open>T\<close> the
  current day, and a run whose listing request succeeds and whose harvest completes
  ends with that write.
\<close>

theorem output_named_by_run_date:
  "(\<forall>path js. WriteJson path js \<in> set (pull_hf_daily w (Some d)) \<longrightarrow>
      path = ascii ''data/'' @ strftime_ymd w (now_last w) @ ascii ''_papers.json'') \<and>
   (\<forall>articles s.
      requests_get_listing w (HF_PAPERS_URL @ ascii ''/'' @ d) = Inr (200, articles) \<longrightarrow>
      harvest (unicode_decimal w) (start_state (HF_PAPERS_URL @ ascii ''/'' @ d)) articles = Next s \<longrightarrow>
      last (pull_hf_daily w (Some d)) =
        WriteJson (ascii ''data/'' @ strftime_ymd w (now_last w) @ ascii ''_papers.json'')
          (download_stage w (papers s)))"
proof (intro conjI allI impI)
  fix path js
  assume a: "WriteJson path js \<in> set (pull_hf_daily w (Some d))"
  have u: "listing_url w (Some d) = HF_PAPERS_URL @ ascii ''/'' @ d" by (simp add: listing_url_def)
  show "path = ascii ''data/'' @ strftime_ymd w (now_last w) @ ascii ''_papers.json''"
  proof (cases "requests_get_listing w (HF_PAPERS_URL @ ascii ''/'' @ d)")
    case (Inl e)
    with a show ?thesis by (simp add: pull_hf_daily_def u)
  next
    case (Inr r)
    obtain status_code articles where r: "r = (status_code, articles)" by (cases r)
    show ?thesis
    proof (cases "status_code = 200")
      case False
      with a Inr r show ?thesis by (simp add: pull_hf_daily_def u)
    next
      case True
      note ok = Inr [unfolded r True, folded u]
      show ?thesis
      proof (cases "harvest (unicode_decimal w) (start_state (listing_url w (Some d))) articles")
        case (Raised e tr)
        from a harvest_Raised_no_write [OF Raised] show ?thesis
          unfolding pull_hf_daily_Raised [OF ok Raised] by simp
      next
        case (Next s)
        from a harvest_trace_no_write [OF Next] show ?thesis
          unfolding pull_hf_daily_Next [OF ok Next] by (auto simp: data_file_path_def)
      qed
    qed
  qed
next
  fix articles s
  assume "requests_get_listing w (HF_PAPERS_URL @ ascii ''/'' @ d) = Inr (200, articles)"
    and "harvest (unicode_decimal w) (start_state (HF_PAPERS_URL @ ascii ''/'' @ d)) articles = Next s"
  then show "last (pull_hf_daily w (Some d)) =
        WriteJson (ascii ''data/'' @ strftime_ymd w (now_last w) @ ascii ''_papers.json'')
          (download_stage w (papers s))"
    by (simp add: pull_hf_daily_def listing_url_def data_file_path_def)
qed

text \<open>The listing of 2023-12-25, harvested on 2024-01-02.\<close>

theorem output_named_by_run_date_witness:
  "requests_get_listing (sample_world 200 [sample_article (ascii ''/papers/2401.00001'') (ascii ''A'')] {})
     (HF_PAPERS_URL @ ascii ''/'' @ ascii ''2023-12-25'')
     = Inr (200, [sample_article (ascii ''/papers/2401.00001'') (ascii ''A'')]) \<and>
   harvest (unicode_decimal (sample_world 200 [sample_article (ascii ''/papers/2401.00001'') (ascii ''A'')] {}))
       (start_state (HF_PAPERS_URL @ ascii ''/'' @ ascii ''2023-12-25''))
       [sample_article (ascii ''/papers/2401.00001'') (ascii ''A'')]
     = Next \<lparr>papers = [new_paper (ascii ''/papers/2401.00001'') (ascii ''A'') (ascii ''Abstract'') (ascii ''2401.00001'')],
             seen_ids = {ascii ''2401.00001''},
             trace = [GetListing (ascii ''https://huggingface.co/papers/date/2023-12-25''),
                      MakeDirs (ascii ''temp_pdfs''),
                      GetDetail (ascii ''https://huggingface.co/papers/2401.00001'')]\<rparr> \<and>
   strftime_ymd (sample_world 200 [sample_article (ascii ''/papers/2401.00001'') (ascii ''A'')] {})
       (now_last (sample_world 200 [sample_article (ascii ''/papers/2401.00001'') (ascii ''A'')] {}))
     = ascii ''2024-01-02'' \<and>
   last (pull_hf_daily (sample_world 200 [sample_article (ascii ''/papers/2401.00001'') (ascii ''A'')] {})
           (Some (ascii ''2023-12-25'')))
     = WriteJson (ascii ''data/2024-01-02_papers.json'')
         [new_paper (ascii ''/papers/2401.00001'') (ascii ''A'') (ascii ''Abstract'') (ascii ''2401.00001'')]"
proof -
  let ?w = "sample_world 200 [sample_article (ascii ''/papers/2401.00001'') (ascii ''A'')] {}"
  let ?s = "\<lparr>papers = [new_paper (ascii ''/papers/2401.00001'') (ascii ''A'') (ascii ''Abstract'') (ascii ''2401.00001'')],
             seen_ids = {ascii ''2401.00001''},
             trace = [GetListing (ascii ''https://huggingface.co/papers/date/2023-12-25''),
                      MakeDirs (ascii ''temp_pdfs''),
                      GetDetail (ascii ''https://huggingface.co/papers/2401.00001'')]\<rparr>"
  have l: "requests_get_listing ?w (HF_PAPERS_URL @ ascii ''/'' @ ascii ''2023-12-25'')
     = Inr (200, [sample_article (ascii ''/papers/2401.00001'') (ascii ''A'')])"
    by (simp add: sample_world_def)
  have h: "harvest (unicode_decimal ?w) (start_state (HF_PAPERS_URL @ ascii ''/'' @ ascii ''2023-12-25''))
       [sample_article (ascii ''/papers/2401.00001'') (ascii ''A'')] = Next ?s"
    by (simp add: harvest_eval HF_PAPERS_URL_def sample_world_def new_paper_def)
  have t: "strftime_ymd ?w (now_last ?w) = ascii ''2024-01-02''"
    by (simp add: sample_world_def)
  have d: "download_stage ?w (papers ?s)
      = [new_paper (ascii ''/papers/2401.00001'') (ascii ''A'') (ascii ''Abstract'') (ascii ''2401.00001'')]"
    by (simp add: run_eval)
  from output_named_by_run_date [of ?w "ascii ''2023-12-25''"] l h
  have "last (pull_hf_daily ?w (Some (ascii ''2023-12-25'')))
      = WriteJson (ascii ''data/'' @ strftime_ymd ?w (now_last ?w) @ ascii ''_papers.json'')
          (download_stage ?w (papers ?s))"
    by blast
  then have "last (pull_hf_daily ?w (Some (ascii ''2023-12-25'')))
      = WriteJson (ascii ''data/2024-01-02_papers.json'')
          [new_paper (ascii ''/papers/2401.00001'') (ascii ''A'') (ascii ''Abstract'') (ascii ''2401.00001'')]"
    by (simp only: t d) (simp add: ascii_def)
  with l h t show ?thesis by (simp only: simp_thms)
qed

subsection \<open>C10: an article without a link\<close>

text \<open>
  Claim C10. If an article of the listing has no anchor, or its first anchor has no
  \<^verbatim>\<open>href\<close>, the run ends in an uncaught exception: its trace is the listing request,
  the staging directory, detail requests of articles before that one only, and the
  exception. Nothing is requested for that article or a later one, nothing is
  downloaded and no file is written. When the articles before it all pass, each of
  them has been requested, and the exception is \<^verbatim>\<open>AttributeError\<close> for a missing
  anchor and \<^verbatim>\<open>TypeError\<close> for a missing \<^verbatim>\<open>href\<close>.
\<close>

theorem missing_anchor_aborts_run:
  assumes "requests_get_listing w (listing_url w date_arg) = Inr (200, pre @ p # post)"
    and "a_href p = None \<or> a_href p = Some None"
  shows "\<exists>e lg. pull_hf_daily w date_arg =
             [GetListing (listing_url w date_arg), MakeDirs (ascii ''temp_pdfs'')] @ lg @ [Uncaught e] \<and>
           prefix lg (fetch_events pre) \<and>
           (\<forall>s. harvest (unicode_decimal w) (start_state (listing_url w date_arg)) pre = Next s \<longrightarrow>
                lg = fetch_events pre \<and>
                e = (if a_href p = None then AttributeError else TypeError))"
proof -
  let ?e0 = "if a_href p = None then AttributeError else TypeError"
  let ?s0 = "start_state (listing_url w date_arg)"
  have "loop_body (unicode_decimal w) s p = Raised ?e0 (trace s @ [])" for s
    using assms(2) by (auto simp: loop_body_def)
  from harvest_abort_at [of "unicode_decimal w" p ?e0 "[]" ?s0 pre post, OF this]
  obtain e lg where h: "harvest (unicode_decimal w) ?s0 (pre @ p # post) = Raised e (trace ?s0 @ lg)"
    and lg: "prefix lg (fetch_events pre)"
    and ex: "\<forall>s. harvest (unicode_decimal w) ?s0 pre = Next s \<longrightarrow> lg = fetch_events pre \<and> e = ?e0"
    by auto
  from pull_hf_daily_Raised [OF assms(1) h]
  have "pull_hf_daily w date_arg =
          [GetListing (listing_url w date_arg), MakeDirs (ascii ''temp_pdfs'')] @ lg @ [Uncaught e]"
    by (simp add: start_state_def)
  with lg ex show ?thesis by blast
qed

theorem missing_anchor_aborts_run_witness:
  "requests_get_listing
     (sample_world 200
        ([sample_article (ascii ''/papers/2401.00001'') (ascii ''A'')] @
         \<lparr>a_href = None, detail_reply = Inr (200, sample_page (ascii ''X''))\<rparr> #
         [sample_article (ascii ''/papers/2401.00002'') (ascii ''B'')]) {})
     (listing_url (sample_world 200
        ([sample_article (ascii ''/papers/2401.00001'') (ascii ''A'')] @
         \<lparr>a_href = None, detail_reply = Inr (200, sample_page (ascii ''X''))\<rparr> #
         [sample_article (ascii ''/papers/2401.00002'') (ascii ''B'')]) {}) (Some (ascii ''2024-01-01'')))
     = Inr (200, [sample_article (ascii ''/papers/2401.00001'') (ascii ''A'')] @
         \<lparr>a_href = None, detail_reply = Inr (200, sample_page (ascii ''X''))\<rparr> #
         [sample_article (ascii ''/papers/2401.00002'') (ascii ''B'')]) \<and>
   pull_hf_daily
     (sample_world 200
        ([sample_article (ascii ''/papers/2401.00001'') (ascii ''A'')] @
         \<lparr>a_href = None, detail_reply = Inr (200, sample_page (ascii ''X''))\<rparr> #
         [sample_article (ascii ''/papers/2401.00002'') (ascii ''B'')]) {})
     (Some (ascii ''2024-01-01''))
   = [GetListing (ascii ''https://huggingface.co/papers/date/2024-01-01''), MakeDirs (ascii ''temp_pdfs''),
      GetDetail (ascii ''https://huggingface.co/papers/2401.00001''), Uncaught AttributeError] \<and>
   pull_hf_daily
     (sample_world 200
        ([] @ \<lparr>a_href = Some None, detail_reply = Inr (200, sample_page (ascii ''X''))\<rparr> #
         [sample_article (ascii ''/papers/2401.00002'') (ascii ''B'')]) {})
     (Some (ascii ''2024-01-01''))
   = [GetListing (ascii ''https://huggingface.co/papers/date/2024-01-01''), MakeDirs (ascii ''temp_pdfs''),
      Uncaught TypeError]"
  using missing_anchor_aborts_run
    [of "sample_world 200
        ([sample_article (ascii ''/papers/2401.00001'') (ascii ''A'')] @
         \<lparr>a_href = None, detail_reply = Inr (200, sample_page (ascii ''X''))\<rparr> #
         [sample_article (ascii ''/papers/2401.00002'') (ascii ''B'')]) {}"
      "Some (ascii ''2024-01-01'')" "[sample_article (ascii ''/papers/2401.00001'') (ascii ''A'')]"
      "\<lparr>a_href = None, detail_reply = Inr (200, sample_page (ascii ''X''))\<rparr>"
      "[sample_article (ascii ''/papers/2401.00002'') (ascii ''B'')]"]
    missing_anchor_aborts_run
    [of "sample_world 200
        ([] @ \<lparr>a_href = Some None, detail_reply = Inr (200, sample_page (ascii ''X''))\<rparr> #
         [sample_article (ascii ''/papers/2401.00002'') (ascii ''B'')]) {}"
      "Some (ascii ''2024-01-01'')" "[]"
      "\<lparr>a_href = Some None, detail_reply = Inr (200, sample_page (ascii ''X''))\<rparr>"
      "[sample_article (ascii ''/papers/2401.00002'') (ascii ''B'')]"]
  by (simp add: harvest_eval run_eval)

end
